theory Spec2Isabelle
  imports Complex_Main "HOL-Library.Log_Nat"
begin

section \<open>MovieEnc v1.1.0: a shallow embedding of \<^verbatim>\<open>MovieEnc_v1.1.0.py\<close>\<close>

text \<open>
  The program is one Tk callback, \<^verbatim>\<open>run_ffmpeg\<close>, two probe helpers and a settings file.
  The embedding keeps the source's names. What the callback reads from the outside (the
  entry widgets, the file system, the child processes) is a record \<open>world\<close>; what it
  does to the outside (child processes started, dialogs shown, an exception leaving the
  callback) is the list of events it returns.

  Python strings are modelled as \<open>string\<close>, one \<open>char\<close> per code point, so code points
  above 255 are outside the model.
\<close>

subsection \<open>Python strings\<close>

text \<open>\<^verbatim>\<open>str.isspace\<close> on the code points below 256: TAB..CR, FS..US, space, NEL, NBSP.\<close>

definition py_isspace :: "char \<Rightarrow> bool" where
  "py_isspace c =
     (let n = (of_char c :: nat)
      in (9 \<le> n \<and> n \<le> 13) \<or> (28 \<le> n \<and> n \<le> 32) \<or> n = 133 \<or> n = 160)"

text \<open>\<^verbatim>\<open>s.strip()\<close>\<close>

definition py_strip :: "string \<Rightarrow> string" where
  "py_strip s = rev (dropWhile py_isspace (rev (dropWhile py_isspace s)))"

text \<open>\<^verbatim>\<open>s.split(c)\<close> for a one-character separator: always at least one piece.\<close>

fun py_split :: "char \<Rightarrow> string \<Rightarrow> string list" where
  "py_split c [] = [[]]"
| "py_split c (x # xs) =
     (if x = c then [] # py_split c xs
      else (case py_split c xs of
              [] \<Rightarrow> [[x]]
            | p # ps \<Rightarrow> (x # p) # ps))"

definition is_digit :: "char \<Rightarrow> bool" where
  "is_digit c = (let n = (of_char c :: nat) in 48 \<le> n \<and> n \<le> 57)"

definition digit_val :: "char \<Rightarrow> nat" where
  "digit_val c = of_char c - 48"

text \<open>
  The digits of \<^verbatim>\<open>int(s)\<close> after the first one: decimal digits, with single
  underscores allowed between two digits.
\<close>

fun parse_digits :: "nat \<Rightarrow> string \<Rightarrow> nat option" where
  "parse_digits acc [] = Some acc"
| "parse_digits acc [c] = (if is_digit c then Some (10 * acc + digit_val c) else None)"
| "parse_digits acc (c # d # ds) =
     (if is_digit c then parse_digits (10 * acc + digit_val c) (d # ds)
      else if c = CHR ''_'' \<and> is_digit d then parse_digits (10 * acc + digit_val d) ds
      else None)"

text \<open>
  The whitespace \<^verbatim>\<open>int\<close> skips around a number is not that of \<^verbatim>\<open>strip\<close>: on the code
  points below 256 it is TAB..CR, space, NEL and NBSP, without FS..US.
\<close>

definition int_isspace :: "char \<Rightarrow> bool" where
  "int_isspace c =
     (let n = (of_char c :: nat)
      in (9 \<le> n \<and> n \<le> 13) \<or> n = 32 \<or> n = 133 \<or> n = 160)"

text \<open>
  \<^verbatim>\<open>int(s)\<close> on a string: surrounding whitespace is dropped, one sign is allowed, then
  digits. \<open>None\<close> is the \<^verbatim>\<open>ValueError\<close>, which CPython 3.11 and later also raise for
  more than 4300 digits.
\<close>

definition py_int_of_str :: "string \<Rightarrow> int option" where
  "py_int_of_str s =
     (let t = rev (dropWhile int_isspace (rev (dropWhile int_isspace s)));
          neg = (case t of [] \<Rightarrow> False | c # _ \<Rightarrow> c = CHR ''-'');
          u = (case t of [] \<Rightarrow> [] | c # r \<Rightarrow> if c = CHR ''-'' \<or> c = CHR ''+'' then r else t)
      in case u of
           [] \<Rightarrow> None
         | c # cs \<Rightarrow>
             if is_digit c \<and> length (filter is_digit u) \<le> 4300
             then map_option (\<lambda>n. if neg then - int n else int n) (parse_digits (digit_val c) cs)
             else None)"

text \<open>\<^verbatim>\<open>str(n)\<close> for an integer, as the f-string \<^verbatim>\<open>f"{video_bitrate_kbps}k"\<close> needs it.\<close>

fun str_nat :: "nat \<Rightarrow> string" where
  "str_nat n =
     (if n < 10 then [''0123456789'' ! n]
      else str_nat (n div 10) @ [''0123456789'' ! (n mod 10)])"

declare str_nat.simps [simp del]

definition str_int :: "int \<Rightarrow> string" where
  "str_int i = (if i < 0 then CHR ''-'' # str_nat (nat (- i)) else str_nat (nat i))"

subsection \<open>Paths\<close>

text \<open>
  \<^verbatim>\<open>os.path\<close> is modelled as \<^verbatim>\<open>posixpath\<close>: the separator is \<^verbatim>\<open>/\<close>.

  \<^verbatim>\<open>os.path.basename(p)\<close>: what follows the last separator.
\<close>

definition basename :: "string \<Rightarrow> string" where
  "basename p = rev (takeWhile (\<lambda>c. c \<noteq> CHR ''/'') (rev p))"

text \<open>
  \<^verbatim>\<open>os.path.splitext(p)\<close>: split at the last dot, unless that dot comes before the last
  separator or only dots stand between the separator and it.
\<close>

definition splitext :: "string \<Rightarrow> string \<times> string" where
  "splitext p =
     (let ext_rev = takeWhile (\<lambda>c. c \<noteq> CHR ''.'' \<and> c \<noteq> CHR ''/'') (rev p)
      in case drop (length ext_rev) (rev p) of
           [] \<Rightarrow> (p, [])
         | c # root_rev \<Rightarrow>
             if c = CHR ''/'' then (p, [])
             else if \<exists>x \<in> set (takeWhile (\<lambda>c. c \<noteq> CHR ''/'') root_rev). x \<noteq> CHR ''.''
                  then (rev root_rev, CHR ''.'' # rev ext_rev)
                  else (p, []))"

text \<open>\<^verbatim>\<open>os.path.join(a, b)\<close>\<close>

definition path_join :: "string \<Rightarrow> string \<Rightarrow> string" where
  "path_join a b =
     (if (b \<noteq> [] \<and> hd b = CHR ''/'') \<or> a = [] then b
      else if last a = CHR ''/'' then a @ b
      else a @ ''/'' @ b)"

subsection \<open>Python floats\<close>

text \<open>
  A Python float is an IEEE 754 binary64 value. The finite ones are modelled by the
  rational number they denote; every arithmetic operation computes the exact rational result
  and rounds it to the nearest binary64 value, ties to even, overflowing to an infinity.
  The sign of a zero is not modelled: nothing in this program can observe it (a division by
  either zero raises, comparisons and \<^verbatim>\<open>int\<close> do not distinguish them).
\<close>

datatype pyfloat = Fin rat | PInf | NInf | NaN

definition round_half_even :: "rat \<Rightarrow> int" where
  "round_half_even x =
     (let n = \<lfloor>x\<rfloor>; r = x - of_int n
      in if r < 1 / 2 then n else if 1 / 2 < r then n + 1 else if even n then n else n + 1)"

text \<open>\<open>floor_log2 x\<close> is the \<open>e\<close> with \<open>2\<^sup>e \<le> x < 2\<^sup>e\<^sup>+\<^sup>1\<close>, for \<open>0 < x\<close>.\<close>

definition floor_log2 :: "rat \<Rightarrow> int" where
  "floor_log2 x = (if 1 \<le> x then bitlen \<lfloor>x\<rfloor> - 1 else - bitlen (\<lceil>1 / x\<rceil> - 1))"

text \<open>
  Rounding to binary64: 53 significant bits, the exponent of a subnormal fixed at \<open>-1022\<close>,
  and an infinity when the rounded magnitude reaches \<open>2\<^sup>1\<^sup>0\<^sup>2\<^sup>4\<close>.
\<close>

definition double_of_rat :: "rat \<Rightarrow> pyfloat" where
  "double_of_rat x =
     (if x = 0 then Fin 0
      else let e = max (floor_log2 \<bar>x\<bar>) (- 1022);
               ulp = 2 powi (e - 52);
               y = of_int (round_half_even (\<bar>x\<bar> / ulp)) * ulp
           in if 2 ^ 1024 \<le> y then (if x < 0 then NInf else PInf)
              else Fin (if x < 0 then - y else y))"

text \<open>The float a Python \<^verbatim>\<open>int\<close> is converted to when it meets a float in an operation.\<close>

definition float_of_int :: "int \<Rightarrow> pyfloat" where
  "float_of_int i = double_of_rat (of_int i)"

datatype exn = ValueError | ZeroDivisionError | OverflowError | KeyError | OSError

text \<open>\<^verbatim>\<open>x * y\<close>\<close>

fun fmul :: "pyfloat \<Rightarrow> pyfloat \<Rightarrow> pyfloat" where
  "fmul NaN y = NaN"
| "fmul x NaN = NaN"
| "fmul (Fin a) (Fin b) = double_of_rat (a * b)"
| "fmul (Fin a) y = (if a = 0 then NaN else if (0 < a) = (y = PInf) then PInf else NInf)"
| "fmul x (Fin b) = (if b = 0 then NaN else if (0 < b) = (x = PInf) then PInf else NInf)"
| "fmul x y = (if x = y then PInf else NInf)"

text \<open>\<^verbatim>\<open>x - y\<close>\<close>

fun fsub :: "pyfloat \<Rightarrow> pyfloat \<Rightarrow> pyfloat" where
  "fsub NaN y = NaN"
| "fsub x NaN = NaN"
| "fsub (Fin a) (Fin b) = double_of_rat (a - b)"
| "fsub (Fin a) PInf = NInf"
| "fsub (Fin a) NInf = PInf"
| "fsub x (Fin b) = x"
| "fsub x y = (if x = y then NaN else x)"

text \<open>\<^verbatim>\<open>x / y\<close>: a zero divisor raises, whatever the dividend.\<close>

fun fdiv :: "pyfloat \<Rightarrow> pyfloat \<Rightarrow> exn + pyfloat" where
  "fdiv x (Fin b) =
     (if b = 0 then Inl ZeroDivisionError
      else case x of
             Fin a \<Rightarrow> Inr (double_of_rat (a / b))
           | PInf \<Rightarrow> Inr (if 0 < b then PInf else NInf)
           | NInf \<Rightarrow> Inr (if 0 < b then NInf else PInf)
           | NaN \<Rightarrow> Inr NaN)"
| "fdiv NaN y = Inr NaN"
| "fdiv x NaN = Inr NaN"
| "fdiv (Fin a) y = Inr (Fin 0)"
| "fdiv x y = Inr NaN"

text \<open>\<^verbatim>\<open>x <= y\<close>: false as soon as one side is a NaN.\<close>

fun fle :: "pyfloat \<Rightarrow> pyfloat \<Rightarrow> bool" where
  "fle NaN y = False"
| "fle x NaN = False"
| "fle (Fin a) (Fin b) = (a \<le> b)"
| "fle NInf y = True"
| "fle x PInf = True"
| "fle x y = False"

text \<open>\<^verbatim>\<open>int(x)\<close> truncates towards zero; it raises on an infinity and on a NaN.\<close>

fun py_int :: "pyfloat \<Rightarrow> exn + int" where
  "py_int (Fin x) = Inr (if 0 \<le> x then \<lfloor>x\<rfloor> else \<lceil>x\<rceil>)"
| "py_int NaN = Inl ValueError"
| "py_int x = Inl OverflowError"

subsection \<open>The settings file (lines 11 to 29)\<close>

text \<open>
  The settings are a Python dict, written to and read from \<^verbatim>\<open>config.json\<close> by the
  standard \<^verbatim>\<open>json\<close> module. The file is modelled by its text, as decoded from UTF-8, and
  the \<^verbatim>\<open>json\<close> module by a printer and a parser of that text. A dict keeps its keys in
  insertion order, so it is a list of members whose keys are distinct. The values are the
  ones the program stores (a string for \<^verbatim>\<open>last_output_dir\<close>, a boolean for \<^verbatim>\<open>use_nvenc\<close>)
  and \<^verbatim>\<open>None\<close>. A \<open>char\<close> is a code point below 256; text with other code points is outside
  the model.
\<close>

datatype json = JNull | JBool bool | JStr string

type_synonym config = "(string \<times> json) list"

text \<open>
  \<^verbatim>\<open>json.dump(data, f, ensure_ascii=False, indent=2)\<close> (line 27). With an indent the encoder
  is the one of \<^verbatim>\<open>json/encoder.py\<close>: a string is quoted with the quote, the backslash and
  the control characters escaped and every other character kept; an object has one member
  on each line, indented by two spaces, with a colon and a space after the key and a comma
  at the end of every line but the last; the empty object is \<^verbatim>\<open>{}\<close>.
\<close>

definition hex_digit :: "nat \<Rightarrow> char" where
  "hex_digit n = ''0123456789abcdef'' ! n"

definition escape_char :: "char \<Rightarrow> string" where
  "escape_char c =
     (if c = CHR 0x22 then [CHR 0x5C, CHR 0x22]
      else if c = CHR 0x5C then [CHR 0x5C, CHR 0x5C]
      else if c = CHR 0x0A then [CHR 0x5C, CHR ''n'']
      else if c = CHR 0x0D then [CHR 0x5C, CHR ''r'']
      else if c = CHR 0x09 then [CHR 0x5C, CHR ''t'']
      else if c = CHR 0x08 then [CHR 0x5C, CHR ''b'']
      else if c = CHR 0x0C then [CHR 0x5C, CHR ''f'']
      else if (of_char c :: nat) < 32
      then [CHR 0x5C, CHR ''u'', CHR ''0'', CHR ''0'',
            hex_digit (of_char c div 16), hex_digit (of_char c mod 16)]
      else [c])"

definition encode_basestring :: "string \<Rightarrow> string" where
  "encode_basestring s = CHR 0x22 # concat (map escape_char s) @ [CHR 0x22]"

fun dump_value :: "json \<Rightarrow> string" where
  "dump_value JNull = ''null''"
| "dump_value (JBool b) = (if b then ''true'' else ''false'')"
| "dump_value (JStr s) = encode_basestring s"

definition dump_member :: "string \<times> json \<Rightarrow> string" where
  "dump_member m = ''  '' @ encode_basestring (fst m) @ '': '' @ dump_value (snd m)"

fun join_lines :: "string list \<Rightarrow> string" where
  "join_lines [] = []"
| "join_lines [x] = x"
| "join_lines (x # y # ys) = x @ '',\<newline>'' @ join_lines (y # ys)"

definition json_dumps :: "config \<Rightarrow> string" where
  "json_dumps d =
     (if d = [] then ''{}''
      else ''{\<newline>'' @ join_lines (map dump_member d) @ ''\<newline>}'')"

text \<open>The text of a dumped object that is not empty, from the quote of its first key on.\<close>

fun members_text :: "config \<Rightarrow> string" where
  "members_text [] = []"
| "members_text (m # ms) =
     encode_basestring (fst m) @ '': '' @ dump_value (snd m)
     @ (if ms = [] then ''\<newline>}'' else '',\<newline>  '' @ members_text ms)"

text \<open>
  \<^verbatim>\<open>json.load(f)\<close> (line 18) parses the whole text of the file. The parser below follows
  \<^verbatim>\<open>json/decoder.py\<close> and \<^verbatim>\<open>json/scanner.py\<close> on objects whose values are strings,
  \<^verbatim>\<open>true\<close>, \<^verbatim>\<open>false\<close> and \<^verbatim>\<open>null\<close>. \<open>Fail\<close> is a \<^verbatim>\<open>JSONDecodeError\<close>. \<open>Beyond\<close> is text that
  this model does not decide: a number, an array, a nested object, an escape of a code
  point above 255, or a document that is not an object.
\<close>

datatype 'a scan = Fail | Beyond | Ok 'a

definition json_ws :: "char \<Rightarrow> bool" where
  "json_ws c = (c = CHR '' '' \<or> c = CHR 0x09 \<or> c = CHR 0x0A \<or> c = CHR 0x0D)"

definition skip_ws :: "string \<Rightarrow> string" where
  "skip_ws inp = dropWhile json_ws inp"

definition hex_val :: "char \<Rightarrow> nat option" where
  "hex_val c =
     (let n = (of_char c :: nat)
      in if 48 \<le> n \<and> n \<le> 57 then Some (n - 48)
         else if 97 \<le> n \<and> n \<le> 102 then Some (n - 87)
         else if 65 \<le> n \<and> n \<le> 70 then Some (n - 55)
         else None)"

definition unescape :: "char \<Rightarrow> char option" where
  "unescape e =
     (if e = CHR 0x22 then Some (CHR 0x22)
      else if e = CHR 0x5C then Some (CHR 0x5C)
      else if e = CHR ''/'' then Some (CHR ''/'')
      else if e = CHR ''b'' then Some (CHR 0x08)
      else if e = CHR ''f'' then Some (CHR 0x0C)
      else if e = CHR ''n'' then Some (CHR 0x0A)
      else if e = CHR ''r'' then Some (CHR 0x0D)
      else if e = CHR ''t'' then Some (CHR 0x09)
      else None)"

fun scan_cons :: "char \<Rightarrow> (string \<times> string) scan \<Rightarrow> (string \<times> string) scan" where
  "scan_cons x (Ok (s, rest)) = Ok (x # s, rest)"
| "scan_cons x Fail = Fail"
| "scan_cons x Beyond = Beyond"

text \<open>What follows a backslash in a string: one escaped character.\<close>

definition scan_escape :: "string \<Rightarrow> (char \<times> string) scan" where
  "scan_escape cs =
     (case cs of
        [] \<Rightarrow> Fail
      | e # r \<Rightarrow>
          if e = CHR ''u'' then
            (case r of
               h1 # h2 # h3 # h4 # r' \<Rightarrow>
                 (case (hex_val h1, hex_val h2, hex_val h3, hex_val h4) of
                    (Some a, Some b, Some c, Some d) \<Rightarrow>
                      if ((a * 16 + b) * 16 + c) * 16 + d < 256
                      then Ok (char_of (((a * 16 + b) * 16 + c) * 16 + d), r')
                      else Beyond
                  | _ \<Rightarrow> Fail)
             | _ \<Rightarrow> Fail)
          else (case unescape e of
                  None \<Rightarrow> Fail
                | Some x \<Rightarrow> Ok (x, r)))"

lemma scan_escape_shorter: "scan_escape cs = Ok (x, r) \<Longrightarrow> length r < length cs"
  by (auto simp: scan_escape_def split: list.splits if_splits option.splits)

text \<open>
  A string, from after its opening quote: the characters up to the closing quote and the
  text after it. A control character that is not escaped ends the parse (the decoder is
  strict).
\<close>

function scan_string :: "string \<Rightarrow> (string \<times> string) scan" where
  "scan_string [] = Fail"
| "scan_string (c # cs) =
     (if c = CHR 0x22 then Ok ([], cs)
      else if c = CHR 0x5C then
        (case scan_escape cs of
           Fail \<Rightarrow> Fail
         | Beyond \<Rightarrow> Beyond
         | Ok (x, r) \<Rightarrow> scan_cons x (scan_string r))
      else if (of_char c :: nat) < 32 then Fail
      else scan_cons c (scan_string cs))"
  by pat_completeness auto
termination
  by (relation "measure length") (auto dest: scan_escape_shorter)

definition starts_other_value :: "char \<Rightarrow> bool" where
  "starts_other_value c =
     (c = CHR ''{'' \<or> c = CHR ''['' \<or> c = CHR ''-'' \<or> c = CHR ''N'' \<or> c = CHR ''I''
      \<or> (48 \<le> (of_char c :: nat) \<and> (of_char c :: nat) \<le> 57))"

definition parse_value :: "string \<Rightarrow> (json \<times> string) scan" where
  "parse_value inp =
     (case inp of
        [] \<Rightarrow> Fail
      | c # cs \<Rightarrow>
          if c = CHR 0x22
          then (case scan_string cs of
                  Fail \<Rightarrow> Fail
                | Beyond \<Rightarrow> Beyond
                | Ok (s, rest) \<Rightarrow> Ok (JStr s, rest))
          else if take 4 inp = ''null'' then Ok (JNull, drop 4 inp)
          else if take 4 inp = ''true'' then Ok (JBool True, drop 4 inp)
          else if take 5 inp = ''false'' then Ok (JBool False, drop 5 inp)
          else if starts_other_value c then Beyond
          else Fail)"

text \<open>\<^verbatim>\<open>d[key] = value\<close>: a key that is already there keeps its place.\<close>

definition dict_set :: "string \<Rightarrow> json \<Rightarrow> config \<Rightarrow> config" where
  "dict_set k v d =
     (if k \<in> fst ` set d then map (\<lambda>m. if fst m = k then (k, v) else m) d
      else d @ [(k, v)])"

lemma scan_cons_Ok: "scan_cons x r = Ok (s, rest) \<Longrightarrow> \<exists>s'. r = Ok (s', rest) \<and> s = x # s'"
  by (cases r) auto

lemma scan_string_shorter: "scan_string t = Ok (s, rest) \<Longrightarrow> length rest < length t"
proof (induction t arbitrary: s rule: scan_string.induct)
  case 1
  then show ?case by simp
next
  case (2 c cs)
  show ?case
  proof (cases "c = CHR 0x22")
    case True
    with "2.prems" show ?thesis by simp
  next
    case nq: False
    show ?thesis
    proof (cases "c = CHR 0x5C")
      case False
      with nq "2.prems" obtain s' where "scan_string cs = Ok (s', rest)"
        by (auto split: if_splits dest: scan_cons_Ok)
      with "2.IH"(2)[OF nq False] nq False "2.prems" show ?thesis
        by (fastforce split: if_splits)
    next
      case bs: True
      with nq "2.prems" obtain x r s' where e: "scan_escape cs = Ok (x, r)"
        and r: "scan_string r = Ok (s', rest)"
        by (auto split: scan.splits dest: scan_cons_Ok)
      from "2.IH"(1)[OF nq bs e refl r] scan_escape_shorter[OF e] show ?thesis by simp
    qed
  qed
qed

lemma skip_ws_length: "length (skip_ws t) \<le> length t"
  by (simp add: skip_ws_def length_dropWhile_le)

lemma parse_value_shorter: "parse_value t = Ok (v, rest) \<Longrightarrow> length rest < length t"
  by (cases t)
     (auto simp: parse_value_def split: if_splits scan.splits dest: scan_string_shorter)

text \<open>
  The members of an object, from the quote of a key on: the key, a colon, the value, then
  a closing brace or a comma and the next member. \<open>acc\<close> is the dict built so far.
\<close>

function parse_members :: "config \<Rightarrow> string \<Rightarrow> (config \<times> string) scan" where
  "parse_members acc inp =
     (case inp of
        [] \<Rightarrow> Fail
      | c # cs \<Rightarrow>
          if c \<noteq> CHR 0x22 then Fail
          else (case scan_string cs of
                  Fail \<Rightarrow> Fail
                | Beyond \<Rightarrow> Beyond
                | Ok (key, r1) \<Rightarrow>
                    (case skip_ws r1 of
                       [] \<Rightarrow> Fail
                     | c2 # r2 \<Rightarrow>
                         if c2 \<noteq> CHR '':'' then Fail
                         else (case parse_value (skip_ws r2) of
                                 Fail \<Rightarrow> Fail
                               | Beyond \<Rightarrow> Beyond
                               | Ok (v, r3) \<Rightarrow>
                                   (case skip_ws r3 of
                                      [] \<Rightarrow> Fail
                                    | c4 # r4 \<Rightarrow>
                                        if c4 = CHR ''}'' then Ok (dict_set key v acc, r4)
                                        else if c4 = CHR '','' then
                                          parse_members (dict_set key v acc) (skip_ws r4)
                                        else Fail)))))"
  by pat_completeness auto
termination
proof (relation "measure (\<lambda>(acc, inp). length inp)", goal_cases)
  case 1
  show ?case by simp
next
  case (2 acc t c cs x key r1 c2 r2 y v r3 c4 r4)
  have "length r1 < length cs" using 2 by (auto dest: scan_string_shorter)
  moreover have "length r2 < length r1" using 2 skip_ws_length[of r1] by auto
  moreover have "length r3 < length (skip_ws r2)" using 2 by (auto dest: parse_value_shorter)
  moreover have "length (skip_ws r2) \<le> length r2" by (rule skip_ws_length)
  moreover have "length r4 < length r3" using 2 skip_ws_length[of r3] by auto
  moreover have "length (skip_ws r4) \<le> length r4" by (rule skip_ws_length)
  ultimately show ?case using 2 by simp
qed

declare parse_members.simps [simp del]

text \<open>
  The whole document: an object, with nothing but whitespace around it. Any other JSON
  value at the top is \<open>Beyond\<close>: \<^verbatim>\<open>json.load\<close> would return a value that is not a dict.
\<close>

definition json_loads :: "string \<Rightarrow> config scan" where
  "json_loads inp =
     (case skip_ws inp of
        [] \<Rightarrow> Fail
      | c # cs \<Rightarrow>
          if c = CHR ''{''
          then (case skip_ws cs of
                  [] \<Rightarrow> Fail
                | d # ds \<Rightarrow>
                    (case (if d = CHR ''}'' then Ok ([], ds) else parse_members [] (d # ds)) of
                       Fail \<Rightarrow> Fail
                     | Beyond \<Rightarrow> Beyond
                     | Ok (obj, rest) \<Rightarrow> if skip_ws rest = [] then Ok obj else Fail))
          else if c = CHR 0x22 \<or> c = CHR ''t'' \<or> c = CHR ''f'' \<or> c = CHR ''n''
                  \<or> starts_other_value c
          then Beyond
          else Fail)"

text \<open>
  The directory of the program. \<open>config_file\<close> is the text of \<^verbatim>\<open>config.json\<close>, \<open>None\<close> when
  the file does not exist. \<open>can_read\<close> says whether \<^verbatim>\<open>open(CONFIG_FILE, 'r')\<close> and the read of
  \<^verbatim>\<open>json.load\<close> succeed. \<open>write_outcome\<close> says how the next write goes: \<open>CannotOpen\<close> when
  \<^verbatim>\<open>open(CONFIG_FILE, 'w')\<close> raises, so that the file is untouched; \<open>Interrupted n\<close> when the
  open succeeds, which empties the file, and an exception comes after \<open>n\<close> characters have
  reached it; \<open>Written\<close> when the whole text reaches the file. Both files are opened in
  text mode with the same encoding, and the dumped text has no carriage return of its own
  (the encoder escapes it), so what is read is the text that was written.
\<close>

datatype write_outcome = CannotOpen | Interrupted nat | Written

record config_fs =
  config_file :: "string option"
  can_read :: bool
  write_outcome :: write_outcome

text \<open>
  Lines 13 to 21: any exception is printed and the empty dict returned. \<open>NotModelled\<close> is
  the result on a file whose text the parser leaves undecided.
\<close>

datatype loaded = Dict config | NotModelled

definition load_config :: "config_fs \<Rightarrow> loaded" where
  "load_config fs =
     (case config_file fs of
        None \<Rightarrow> Dict []
      | Some content \<Rightarrow>
          if can_read fs
          then (case json_loads content of
                  Ok data \<Rightarrow> Dict data
                | Fail \<Rightarrow> Dict []
                | Beyond \<Rightarrow> NotModelled)
          else Dict [])"

text \<open>
  Lines 23 to 29: any exception is printed and swallowed. The file is opened with mode
  \<^verbatim>\<open>'w'\<close> before anything is written, so a write that fails after the open leaves the part
  of the new text that was written, not the old file.
\<close>

definition save_config :: "config \<Rightarrow> config_fs \<Rightarrow> config_fs" where
  "save_config data fs =
     (case write_outcome fs of
        CannotOpen \<Rightarrow> fs
      | Interrupted n \<Rightarrow> fs\<lparr>config_file := Some (take n (json_dumps data))\<rparr>
      | Written \<Rightarrow> fs\<lparr>config_file := Some (json_dumps data)\<rparr>)"

subsection \<open>The world of \<^verbatim>\<open>run_ffmpeg\<close>\<close>

text \<open>
  The dialogs of the program, one constructor for each \<^verbatim>\<open>messagebox.showerror\<close> call, in
  source order (lines 121, 124, 57, 80, 173, 191, 196, 223).
\<close>

datatype error =
    InputNotSpecified
  | SourceNotFound
  | DurationProbeFailed
  | ResolutionProbeFailed
  | OutputDirectoryMissing string
  | InsufficientBudget
  | InvalidBitrate
  | EncoderFailed

text \<open>
  What the callback does to the outside: \<open>Run argv\<close> is a call of \<^verbatim>\<open>subprocess.run\<close>,
  \<open>Uncaught x\<close> an exception that leaves \<^verbatim>\<open>run_ffmpeg\<close>.
\<close>

datatype event = Run "string list" | ShowError error | ShowInfo string | Uncaught exn

text \<open>A finished child process: its return code and its standard output.\<close>

datatype completed = Completed int string

text \<open>
  What the callback reads: the widgets, \<^verbatim>\<open>os.path.exists\<close>, \<^verbatim>\<open>os.path.expanduser("~")\<close>,
  \<^verbatim>\<open>subprocess.run\<close> (\<open>None\<close> when the call itself raises, for instance because the program
  is not installed) and \<^verbatim>\<open>float\<close> on a string (\<open>None\<close> when it raises).
\<close>

record world =
  input_entry :: string
  output_dir_entry :: string
  mode_var :: string
  use_nvenc_var :: bool
  path_exists :: "string \<Rightarrow> bool"
  expanduser_home :: string
  subprocess_run :: "string list \<Rightarrow> completed option"
  float_of_str :: "string \<Rightarrow> pyfloat option"

subsection \<open>The probes (lines 37 to 81)\<close>

definition duration_argv :: "string \<Rightarrow> string list" where
  "duration_argv filename =
     [''ffprobe'', ''-v'', ''error'', ''-select_streams'', ''v:0'',
      ''-show_entries'', ''format=duration'',
      ''-of'', ''default=noprint_wrappers=1:nokey=1'', filename]"

definition get_video_duration :: "world \<Rightarrow> string \<Rightarrow> event list \<times> pyfloat option" where
  "get_video_duration w filename =
     (case subprocess_run w (duration_argv filename) of
        None \<Rightarrow> ([Run (duration_argv filename), ShowError DurationProbeFailed], None)
      | Some (Completed rc out) \<Rightarrow>
          (case float_of_str w (py_strip out) of
             None \<Rightarrow> ([Run (duration_argv filename), ShowError DurationProbeFailed], None)
           | Some duration \<Rightarrow> ([Run (duration_argv filename)], Some duration)))"

definition resolution_argv :: "string \<Rightarrow> string list" where
  "resolution_argv filename =
     [''ffprobe'', ''-v'', ''error'', ''-select_streams'', ''v:0'',
      ''-show_entries'', ''stream=width,height'',
      ''-of'', ''csv=p=0:s=x'', filename]"

definition get_video_resolution :: "world \<Rightarrow> string \<Rightarrow> event list \<times> string" where
  "get_video_resolution w filename =
     (case subprocess_run w (resolution_argv filename) of
        None \<Rightarrow> ([Run (resolution_argv filename), ShowError ResolutionProbeFailed], ''unknown'')
      | Some (Completed rc out) \<Rightarrow> ([Run (resolution_argv filename)], py_strip out))"

subsection \<open>Orientation and mode (lines 138 to 166)\<close>

text \<open>
  Line 140, \<^verbatim>\<open>orig_width, orig_height = map(int, orig_res.split("x"))\<close>: a piece that is not
  an integer, and a number of pieces other than two, both raise \<^verbatim>\<open>ValueError\<close>.
\<close>

definition parse_resolution :: "string \<Rightarrow> exn + int \<times> int" where
  "parse_resolution orig_res =
     (case map py_int_of_str (py_split CHR ''x'' orig_res) of
        [Some orig_width, Some orig_height] \<Rightarrow> Inr (orig_width, orig_height)
      | _ \<Rightarrow> Inl ValueError)"

definition vertical_of :: "string \<Rightarrow> exn + bool" where
  "vertical_of orig_res =
     (if orig_res \<noteq> ''unknown''
      then (case parse_resolution orig_res of
              Inl x \<Rightarrow> Inl x
            | Inr (orig_width, orig_height) \<Rightarrow> Inr (orig_width < orig_height))
      else Inr False)"

record mode_plan =
  scaling_filter :: "string option"
  resolution_str :: string
  use_bitrate :: bool

definition presets_vertical :: "string \<rightharpoonup> string" where
  "presets_vertical = map_of [(''360p'', ''360:-1''), (''480p'', ''480:-1''), (''720p'', ''720:-1'')]"

definition presets_landscape :: "string \<rightharpoonup> string" where
  "presets_landscape =
     map_of [(''360p'', ''640:360''), (''480p'', ''854:480''), (''720p'', ''1280:720'')]"

text \<open>Lines 145 to 166. \<^verbatim>\<open>presets[mode]\<close> raises \<^verbatim>\<open>KeyError\<close> on a missing key.\<close>

definition select_mode :: "string \<Rightarrow> bool \<Rightarrow> exn + mode_plan" where
  "select_mode mode vertical =
     (if mode \<in> set [''360p'', ''480p'', ''720p'']
      then (case (if vertical then presets_vertical else presets_landscape) mode of
              None \<Rightarrow> Inl KeyError
            | Some preset \<Rightarrow>
                Inr \<lparr>scaling_filter = Some (''scale='' @ preset), resolution_str = mode,
                     use_bitrate = False\<rparr>)
      else if mode = ''9.5MB''
      then Inr \<lparr>scaling_filter = Some (if vertical then ''scale=480:-1'' else ''scale=854:480''),
                resolution_str = mode, use_bitrate = True\<rparr>
      else Inr \<lparr>scaling_filter = None, resolution_str = ''default'', use_bitrate = False\<rparr>)"

subsection \<open>Output directory and output file (lines 168 to 178)\<close>

definition output_dir_of :: "world \<Rightarrow> string" where
  "output_dir_of w =
     (let output_dir = py_strip (output_dir_entry w)
      in if output_dir = [] then path_join (expanduser_home w) ''Desktop'' else output_dir)"

definition base_name_of :: "string \<Rightarrow> string" where
  "base_name_of input_file = fst (splitext (basename input_file))"

definition output_file_of :: "string \<Rightarrow> string \<Rightarrow> string \<Rightarrow> string" where
  "output_file_of output_dir input_file res_str =
     path_join output_dir (base_name_of input_file @ ''_'' @ res_str @ ''.mp4'')"

subsection \<open>Rate control (lines 34, 35 and 185 to 209)\<close>

definition TARGET_SIZE_MB :: pyfloat where
  "TARGET_SIZE_MB = double_of_rat (92 / 10)"

definition AUDIO_BITRATE :: int where
  "AUDIO_BITRATE = 128000"

definition target_size_bits :: pyfloat where
  "target_size_bits =
     fmul (fmul (fmul TARGET_SIZE_MB (float_of_int 1000)) (float_of_int 1000)) (float_of_int 8)"

definition audio_total_bits :: "pyfloat \<Rightarrow> pyfloat" where
  "audio_total_bits duration = fmul (float_of_int AUDIO_BITRATE) duration"

definition video_total_bits :: "pyfloat \<Rightarrow> pyfloat" where
  "video_total_bits duration = fsub target_size_bits (audio_total_bits duration)"

text \<open>How a run of \<^verbatim>\<open>run_ffmpeg\<close> ends early: a dialog and \<^verbatim>\<open>return\<close>, or an exception.\<close>

datatype abort = Dialog error | Raise exn

text \<open>
  Line 193 and the argument of \<^verbatim>\<open>int\<close> in line 194:
  \<^verbatim>\<open>video_total_bits / duration / 1000\<close>.
\<close>

definition video_bitrate_quotient :: "pyfloat \<Rightarrow> exn + pyfloat" where
  "video_bitrate_quotient duration =
     (case fdiv (video_total_bits duration) duration of
        Inl x \<Rightarrow> Inl x
      | Inr video_bitrate_bps \<Rightarrow> fdiv video_bitrate_bps (float_of_int 1000))"

text \<open>Lines 187 to 197.\<close>

definition video_bitrate_kbps :: "pyfloat \<Rightarrow> abort + int" where
  "video_bitrate_kbps duration =
     (if fle (video_total_bits duration) (float_of_int 0) then Inl (Dialog InsufficientBudget)
      else case video_bitrate_quotient duration of
             Inl x \<Rightarrow> Inl (Raise x)
           | Inr q \<Rightarrow>
               (case py_int q of
                  Inl x \<Rightarrow> Inl (Raise x)
                | Inr kbps \<Rightarrow> if kbps \<le> 0 then Inl (Dialog InvalidBitrate) else Inr kbps))"

text \<open>Lines 185 to 209: the video arguments of the command.\<close>

definition rate_control_args :: "mode_plan \<Rightarrow> bool \<Rightarrow> pyfloat \<Rightarrow> abort + string list" where
  "rate_control_args plan use_nvenc duration =
     (if use_bitrate plan
      then (case video_bitrate_kbps duration of
              Inl a \<Rightarrow> Inl a
            | Inr kbps \<Rightarrow>
                Inr (if use_nvenc
                     then [''-b:v'', str_int kbps @ ''k'', ''-c:v'', ''h264_nvenc'', ''-preset'', ''slow'']
                     else [''-b:v'', str_int kbps @ ''k'', ''-c:v'', ''libx264'', ''-preset'', ''slow'']))
      else Inr (if use_nvenc
                then [''-c:v'', ''h264_nvenc'', ''-preset'', ''slow'', ''-cq'', ''23'']
                else [''-c:v'', ''libx264'', ''-preset'', ''slow'', ''-crf'', ''23'']))"

subsection \<open>The command and its run (lines 180 to 223)\<close>

definition build_command ::
  "string \<Rightarrow> mode_plan \<Rightarrow> string list \<Rightarrow> string \<Rightarrow> string list" where
  "build_command input_file plan video_args output_file =
     [''ffmpeg'', ''-i'', input_file]
     @ (case scaling_filter plan of
          None \<Rightarrow> []
        | Some f \<Rightarrow> if f = [] then [] else [''-vf'', f])
     @ video_args
     @ [''-c:a'', ''aac'', ''-b:a'', ''128k'', ''-ar'', ''44100'', output_file]"

text \<open>
  Lines 219 to 223: \<^verbatim>\<open>check=True\<close> turns a non-zero return code into the
  \<^verbatim>\<open>CalledProcessError\<close> that is caught; any other exception of \<^verbatim>\<open>subprocess.run\<close> leaves
  the callback.
\<close>

definition run_encoder :: "world \<Rightarrow> string list \<Rightarrow> string \<Rightarrow> event list" where
  "run_encoder w command output_file =
     Run command #
     (case subprocess_run w command of
        None \<Rightarrow> [Uncaught OSError]
      | Some (Completed rc out) \<Rightarrow>
          if rc = 0 then [ShowInfo output_file] else [ShowError EncoderFailed])"

fun abort_events :: "abort \<Rightarrow> event list" where
  "abort_events (Dialog e) = [ShowError e]"
| "abort_events (Raise x) = [Uncaught x]"

text \<open>Lines 145 to 223, once the duration and the orientation are known.\<close>

definition encode :: "world \<Rightarrow> string \<Rightarrow> pyfloat \<Rightarrow> bool \<Rightarrow> event list" where
  "encode w input_file duration vertical =
     (case select_mode (mode_var w) vertical of
        Inl x \<Rightarrow> [Uncaught x]
      | Inr plan \<Rightarrow>
          let output_dir = output_dir_of w
          in if \<not> path_exists w output_dir then [ShowError (OutputDirectoryMissing output_dir)]
             else let output_file = output_file_of output_dir input_file (resolution_str plan)
                  in (case rate_control_args plan (use_nvenc_var w) duration of
                        Inl a \<Rightarrow> abort_events a
                      | Inr video_args \<Rightarrow>
                          run_encoder w
                            (build_command input_file plan video_args output_file)
                            output_file))"

text \<open>Lines 117 to 223.\<close>

definition run_ffmpeg :: "world \<Rightarrow> event list" where
  "run_ffmpeg w =
     (let input_file = py_strip (input_entry w)
      in if input_file = [] then [ShowError InputNotSpecified]
         else if \<not> path_exists w input_file then [ShowError SourceNotFound]
         else case get_video_duration w input_file of
                (tr1, None) \<Rightarrow> tr1
              | (tr1, Some duration) \<Rightarrow>
                  (case get_video_resolution w input_file of
                     (tr2, orig_res) \<Rightarrow>
                       (case vertical_of orig_res of
                          Inl x \<Rightarrow> tr1 @ tr2 @ [Uncaught x]
                        | Inr vertical \<Rightarrow> tr1 @ tr2 @ encode w input_file duration vertical)))"

text \<open>The commands a run starts, in order.\<close>

fun commands :: "event list \<Rightarrow> string list list" where
  "commands [] = []"
| "commands (Run argv # tr) = argv # commands tr"
| "commands (ev # tr) = commands tr"

subsection \<open>Example worlds\<close>

text \<open>
  A landscape clip of one minute, \<^verbatim>\<open>/videos/clip.mp4\<close>, on a machine where both tools are
  installed and \<^verbatim>\<open>/out\<close> and the desktop directory exist; then the same world with one
  thing changed at a time.
\<close>

definition demo_subprocess :: "string list \<Rightarrow> completed option" where
  "demo_subprocess argv =
     (if argv = duration_argv ''/videos/clip.mp4'' then Some (Completed 0 ''60.000000\<newline>'')
      else if argv = resolution_argv ''/videos/clip.mp4'' then Some (Completed 0 ''1920x1080\<newline>'')
      else if argv \<noteq> [] \<and> hd argv = ''ffmpeg'' then Some (Completed 0 [])
      else None)"

definition demo_exists :: "string \<Rightarrow> bool" where
  "demo_exists p = (p = ''/videos/clip.mp4'' \<or> p = ''/out'' \<or> p = ''/home/user/Desktop'')"

definition demo_float :: "string \<Rightarrow> pyfloat option" where
  "demo_float s = (if s = ''60.000000'' then Some (Fin 60) else None)"

definition demo_world :: world where
  "demo_world =
     \<lparr>input_entry = ''/videos/clip.mp4'', output_dir_entry = ''/out'', mode_var = ''360p'',
      use_nvenc_var = False, path_exists = demo_exists, expanduser_home = ''/home/user'',
      subprocess_run = demo_subprocess, float_of_str = demo_float\<rparr>"

definition resolution_probe_raises :: "string list \<Rightarrow> completed option" where
  "resolution_probe_raises argv =
     (if argv = resolution_argv ''/videos/clip.mp4'' then None else demo_subprocess argv)"

definition nothing_installed :: "string list \<Rightarrow> completed option" where
  "nothing_installed argv = None"

definition blank_input_world :: world where
  "blank_input_world = demo_world\<lparr>input_entry := ''  ''\<rparr>"

definition missing_source_world :: world where
  "missing_source_world = demo_world\<lparr>input_entry := ''/videos/gone.mp4''\<rparr>"

definition missing_outdir_world :: world where
  "missing_outdir_world = demo_world\<lparr>output_dir_entry := ''/nowhere''\<rparr>"

definition resolution_raises_world :: world where
  "resolution_raises_world = demo_world\<lparr>subprocess_run := resolution_probe_raises\<rparr>"

definition no_ffprobe_world :: world where
  "no_ffprobe_world = demo_world\<lparr>subprocess_run := nothing_installed\<rparr>"

text \<open>A source in which \<^verbatim>\<open>ffprobe\<close> finds no duration: it prints nothing.\<close>

definition duration_probe_silent :: "string list \<Rightarrow> completed option" where
  "duration_probe_silent argv =
     (if argv = duration_argv ''/videos/clip.mp4'' then Some (Completed 1 [])
      else demo_subprocess argv)"

definition no_duration_world :: world where
  "no_duration_world = demo_world\<lparr>subprocess_run := duration_probe_silent\<rparr>"

definition unknown_mode_world :: world where
  "unknown_mode_world = demo_world\<lparr>mode_var := ''1080p''\<rparr>"

definition size_target_world :: world where
  "size_target_world = demo_world\<lparr>mode_var := ''9.5MB''\<rparr>"

definition blank_outdir_world :: world where
  "blank_outdir_world = demo_world\<lparr>output_dir_entry := ''  ''\<rparr>"

definition no_desktop_world :: world where
  "no_desktop_world = demo_world\<lparr>output_dir_entry := [], expanduser_home := ''/root''\<rparr>"

text \<open>A duration far below anything a clock measures, \<open>2\<^sup>-\<^sup>1\<^sup>0\<^sup>0\<^sup>0\<close> seconds.\<close>

definition tiny_duration :: rat where
  "tiny_duration = 1 / 2 ^ 1000"

text \<open>Directories for the settings file, and settings values.\<close>

definition read_only_dir :: config_fs where
  "read_only_dir = \<lparr>config_file = None, can_read = True, write_outcome = CannotOpen\<rparr>"

definition fresh_dir :: config_fs where
  "fresh_dir = \<lparr>config_file = None, can_read = True, write_outcome = Written\<rparr>"

definition nvenc_on :: config where
  "nvenc_on = [(''use_nvenc'', JBool True)]"

definition windows_settings :: config where
  "windows_settings =
     [(''last_output_dir'', JStr (''C:'' @ [CHR 0x5C] @ ''Users'' @ [CHR 0x5C] @ ''me'')),
      (''use_nvenc'', JBool False)]"

text \<open>A directory that holds saved settings and whose disk fills up after twelve characters.\<close>

definition full_disk_dir :: config_fs where
  "full_disk_dir =
     \<lparr>config_file = Some (json_dumps windows_settings), can_read = True,
      write_outcome = Interrupted 12\<rparr>"

section \<open>Properties\<close>

subsection \<open>Rounding to binary64\<close>

text \<open>\<open>floor_log2\<close> does find the binary exponent, and it is the only one.\<close>

lemma floor_log2_ge1:
  assumes "1 \<le> x"
  shows "2 powi (floor_log2 x) \<le> x \<and> x < 2 powi (floor_log2 x + 1)"
proof -
  let ?n = "\<lfloor>x\<rfloor>"
  have n: "0 < ?n" using assms by simp
  have b: "1 \<le> bitlen ?n" using n by (simp add: bitlen_alt_def)
  from bitlen_bounds[OF n] have lo: "2 ^ nat (bitlen ?n - 1) \<le> ?n" and hi: "?n < 2 ^ nat (bitlen ?n)"
    by auto
  have "(of_int (2 ^ nat (bitlen ?n - 1)) :: rat) \<le> of_int ?n" using lo by (simp only: of_int_le_iff)
  also have "\<dots> \<le> x" by simp
  finally have 1: "2 powi (bitlen ?n - 1) \<le> x" using b by (simp add: power_int_def)
  have "x < of_int (2 ^ nat (bitlen ?n))" using hi
    by (metis floor_less_iff)
  then have 2: "x < 2 powi (bitlen ?n)" using b by (simp add: power_int_def)
  show ?thesis using 1 2 assms by (simp add: floor_log2_def)
qed

lemma floor_log2_lt1:
  assumes "0 < x" "x < 1"
  shows "2 powi (floor_log2 x) \<le> x \<and> x < 2 powi (floor_log2 x + 1)"
proof -
  let ?n = "\<lceil>1 / x\<rceil> - 1"
  have y: "1 < 1 / x" using assms by simp
  then have n: "0 < ?n" by linarith
  have b: "1 \<le> bitlen ?n" using n by (simp add: bitlen_alt_def)
  from bitlen_bounds[OF n] have lo: "2 ^ nat (bitlen ?n - 1) \<le> ?n" and hi: "?n < 2 ^ nat (bitlen ?n)"
    by auto
  have "(of_int (2 ^ nat (bitlen ?n - 1)) :: rat) < 1 / x" using lo
    by (metis (no_types) less_ceiling_iff zle_diff1_eq)
  then have 1: "2 ^ nat (bitlen ?n - 1) < 1 / x" by simp
  have "\<lceil>1 / x\<rceil> \<le> 2 ^ nat (bitlen ?n)" using hi by linarith
  then have "1 / x \<le> of_int (2 ^ nat (bitlen ?n))" by (simp only: ceiling_le_iff)
  then have 2: "1 / x \<le> 2 ^ nat (bitlen ?n)" by simp
  have p: "(0::rat) < 2 ^ nat (bitlen ?n)" "(0::rat) < 2 ^ nat (bitlen ?n - 1)" by simp_all
  have A: "2 powi (- bitlen ?n) \<le> x"
  proof -
    have "1 \<le> x * 2 ^ nat (bitlen ?n)" using 2 assms(1) by (simp add: field_simps)
    then have "1 / 2 ^ nat (bitlen ?n) \<le> x" using p(1) by (simp add: field_simps)
    then show ?thesis using b by (simp add: power_int_def inverse_eq_divide power_one_over)
  qed
  have B: "x < 2 powi (- bitlen ?n + 1)"
  proof -
    have "x * 2 ^ nat (bitlen ?n - 1) < 1" using 1 assms(1) by (simp add: field_simps)
    then have "x < 1 / 2 ^ nat (bitlen ?n - 1)" using p(2) by (simp add: field_simps)
    moreover have "nat (- (1 - bitlen ?n)) = nat (bitlen ?n - 1)" by simp
    ultimately show ?thesis using b assms(2)
      by (simp add: power_int_def inverse_eq_divide power_one_over)
  qed
  show ?thesis using A B assms by (simp add: floor_log2_def)
qed

lemma floor_log2_bounds:
  "0 < x \<Longrightarrow> 2 powi (floor_log2 x) \<le> x \<and> x < 2 powi (floor_log2 x + 1)"
  using floor_log2_ge1[of x] floor_log2_lt1[of x] by (cases "1 \<le> x") auto

lemma powi2_less_imp_less:
  assumes "(2::rat) powi a < 2 powi b"
  shows "a < b"
proof (rule ccontr)
  assume "\<not> a < b"
  then have "b \<le> a" by simp
  then have "(2::rat) powi b \<le> 2 powi a" by (rule power_int_increasing) simp
  with assms show False by simp
qed

lemma floor_log2_eqI:
  assumes "2 powi e \<le> x" "x < 2 powi (e + 1)"
  shows "floor_log2 x = e"
proof -
  have "(0::rat) < 2 powi e" by simp
  with assms(1) have x: "0 < x" by linarith
  note b = floor_log2_bounds[OF x]
  have "(2::rat) powi e < 2 powi (floor_log2 x + 1)" using assms(1) b by linarith
  then have 1: "e < floor_log2 x + 1" by (rule powi2_less_imp_less)
  have "(2::rat) powi (floor_log2 x) < 2 powi (e + 1)" using assms(2) b by linarith
  then have 2: "floor_log2 x < e + 1" by (rule powi2_less_imp_less)
  show ?thesis using 1 2 by simp
qed

text \<open>Rounding to the nearest integer: the integer within one half is the result.\<close>

lemma round_half_even_eqI:
  assumes "\<bar>x - of_int m\<bar> < 1 / 2"
  shows "round_half_even x = m"
proof -
  have f: "of_int \<lfloor>x\<rfloor> \<le> x" "x < of_int \<lfloor>x\<rfloor> + 1" by linarith+
  have lo: "x - 1 / 2 < of_int m" and hi: "of_int m < x + 1 / 2" using assms by linarith+
  from hi f(2) have "(of_int m :: rat) < of_int \<lfloor>x\<rfloor> + 2" by linarith
  then have a: "(of_int m :: rat) < of_int (\<lfloor>x\<rfloor> + 2)" by simp
  from lo f(1) have "of_int \<lfloor>x\<rfloor> - 1 < (of_int m :: rat)" by linarith
  then have b: "(of_int (\<lfloor>x\<rfloor> - 1) :: rat) < of_int m" by simp
  have m: "m = \<lfloor>x\<rfloor> \<or> m = \<lfloor>x\<rfloor> + 1" using a b unfolding of_int_less_iff by linarith
  show ?thesis
  proof (cases "x - of_int \<lfloor>x\<rfloor> < 1 / 2")
    case True
    have "m \<noteq> \<lfloor>x\<rfloor> + 1"
    proof
      assume "m = \<lfloor>x\<rfloor> + 1"
      then have "(of_int m :: rat) = of_int \<lfloor>x\<rfloor> + 1" by simp
      with hi True show False by linarith
    qed
    with m True show ?thesis by (simp add: round_half_even_def Let_def)
  next
    case False
    have ne: "m \<noteq> \<lfloor>x\<rfloor>"
    proof
      assume "m = \<lfloor>x\<rfloor>"
      then have "(of_int m :: rat) = of_int \<lfloor>x\<rfloor>" by simp
      with lo False show False by linarith
    qed
    with m have "(of_int m :: rat) = of_int \<lfloor>x\<rfloor> + 1" by auto
    with hi have "1 / 2 < x - of_int \<lfloor>x\<rfloor>" by linarith
    with ne m False show ?thesis by (simp add: round_half_even_def Let_def)
  qed
qed

lemma round_half_even_of_int: "round_half_even (of_int m) = m"
  by (rule round_half_even_eqI) simp

lemma round_half_even_nonneg: "0 \<le> x \<Longrightarrow> 0 \<le> round_half_even x"
  by (auto simp: round_half_even_def Let_def)

text \<open>
  How a concrete rounding is computed: give the exponent and the 53-bit significand, and
  check that the significand is within half a unit in the last place.
\<close>

lemma double_of_rat_eqI:
  assumes "2 powi e \<le> \<bar>x\<bar>" "\<bar>x\<bar> < 2 powi (e + 1)" "- 1022 \<le> e"
    and "\<bar>\<bar>x\<bar> / 2 powi (e - 52) - of_int m\<bar> < 1 / 2"
    and "of_int m * 2 powi (e - 52) < (2::rat) ^ 1024"
  shows "double_of_rat x = Fin (if x < 0 then - (of_int m * 2 powi (e - 52)) else of_int m * 2 powi (e - 52))"
proof -
  have e: "floor_log2 \<bar>x\<bar> = e" using assms(1,2) by (rule floor_log2_eqI)
  have "(0::rat) < 2 powi e" by simp
  with assms(1) have "0 < \<bar>x\<bar>" by linarith
  then have x: "x \<noteq> 0" by simp
  have r: "round_half_even (\<bar>x\<bar> / 2 powi (e - 52)) = m" using assms(4) by (rule round_half_even_eqI)
  have mx: "max (floor_log2 \<bar>x\<bar>) (- 1022) = e" using e assms(3) by simp
  show ?thesis unfolding double_of_rat_def Let_def mx r using x assms(5) by simp
qed

text \<open>Integers below \<open>2\<^sup>5\<^sup>3\<close> are binary64 values.\<close>

lemma double_of_rat_of_int:
  assumes "0 < n" "n < 2 ^ 53"
  shows "double_of_rat (of_int n) = Fin (of_int n)"
proof -
  let ?x = "of_int n :: rat"
  have x1: "1 \<le> ?x" using assms(1) by simp
  then have x0: "0 < ?x" by linarith
  define e where "e = floor_log2 ?x"
  have b: "2 powi e \<le> ?x" "?x < 2 powi (e + 1)"
    using floor_log2_bounds[OF x0] by (simp_all add: e_def)
  have "(2::rat) powi 0 < 2 powi (e + 1)" using b(2) x1 by simp
  then have e0: "0 \<le> e" using powi2_less_imp_less[of 0 "e + 1"] by simp
  have "?x < 2 ^ 53" using assms(2) by (metis of_int_less_numeral_power_cancel_iff)
  then have "(2::rat) powi e < 2 powi 53" using b(1) by simp
  then have e52: "e \<le> 52" using powi2_less_imp_less[of e 53] by simp
  define k where "k = nat (52 - e)"
  have ulp: "(2::rat) powi (e - 52) = 1 / 2 ^ k"
    using e52 by (simp add: k_def power_int_def inverse_eq_divide power_one_over)
  have "\<bar>?x\<bar> / 2 powi (e - 52) = of_int (n * 2 ^ k)" using assms(1) by (simp add: ulp)
  then have r: "round_half_even (\<bar>?x\<bar> / 2 powi (e - 52)) = n * 2 ^ k"
    by (simp only: round_half_even_of_int)
  have y: "of_int (n * 2 ^ k) * (2::rat) powi (e - 52) = ?x" by (simp add: ulp)
  have mx: "max (floor_log2 \<bar>?x\<bar>) (- 1022) = e" using e0 assms(1) by (simp add: e_def)
  have big: "\<not> (2::rat) ^ 1024 \<le> ?x" using \<open>?x < 2 ^ 53\<close> by simp
  have nz: "?x \<noteq> 0" "\<not> ?x < 0" using x0 by simp_all
  show ?thesis unfolding double_of_rat_def Let_def mx r y using nz big by simp
qed

lemma float_of_int_small: "0 < n \<Longrightarrow> n < 2 ^ 53 \<Longrightarrow> float_of_int n = Fin (of_int n)"
  by (simp add: float_of_int_def double_of_rat_of_int)

lemma float_of_int_0: "float_of_int 0 = Fin 0"
  by (simp add: float_of_int_def double_of_rat_def)

lemma float_of_int_consts:
  "float_of_int 1000 = Fin 1000" "float_of_int 8 = Fin 8" "float_of_int 128000 = Fin 128000"
  using float_of_int_small[of 1000] float_of_int_small[of 8] float_of_int_small[of 128000]
  by simp_all

text \<open>Rounding keeps the sign.\<close>

lemma double_of_rat_nonneg:
  assumes "0 \<le> x"
  shows "double_of_rat x = PInf \<or> (\<exists>y. double_of_rat x = Fin y \<and> 0 \<le> y)"
proof (cases "x = 0")
  case True
  then show ?thesis by (simp add: double_of_rat_def)
next
  case False
  with assms have "\<not> x < 0" by simp
  moreover have "0 \<le> round_half_even (\<bar>x\<bar> / 2 powi (max (floor_log2 \<bar>x\<bar>) (- 1022) - 52))"
    by (rule round_half_even_nonneg) simp
  ultimately show ?thesis using False by (simp add: double_of_rat_def Let_def)
qed

lemma double_of_rat_nonpos:
  assumes "x \<le> 0"
  shows "fle (double_of_rat x) (Fin 0)"
proof (cases "x = 0")
  case True
  then show ?thesis by (simp add: double_of_rat_def)
next
  case False
  with assms have "x < 0" by simp
  moreover have "0 \<le> round_half_even (\<bar>x\<bar> / 2 powi (max (floor_log2 \<bar>x\<bar>) (- 1022) - 52))"
    by (rule round_half_even_nonneg) simp
  ultimately show ?thesis using False by (simp add: double_of_rat_def Let_def)
qed

text \<open>Rounding does not leave an interval that ends at a power of two.\<close>

lemma round_half_even_le:
  assumes "x \<le> of_int N"
  shows "round_half_even x \<le> N"
proof -
  have f: "\<lfloor>x\<rfloor> \<le> N" using assms by (simp add: floor_le_iff)
  show ?thesis
  proof (cases "\<lfloor>x\<rfloor> = N")
    case True
    then have "x - of_int \<lfloor>x\<rfloor> \<le> 0" using assms by simp
    then show ?thesis using True by (simp add: round_half_even_def Let_def)
  next
    case False
    with f have "\<lfloor>x\<rfloor> + 1 \<le> N" by simp
    with f show ?thesis by (auto simp: round_half_even_def Let_def)
  qed
qed

lemma powi2_le_imp_le:
  assumes "(2::rat) powi a \<le> 2 powi b"
  shows "a \<le> b"
proof (rule ccontr)
  assume "\<not> a \<le> b"
  then have "b < a" by simp
  then have "(2::rat) powi b < 2 powi a" by (rule power_int_strict_increasing) simp
  with assms show False by simp
qed

lemma double_of_rat_bounded:
  assumes "0 \<le> x" "x \<le> 2 powi k" "- 1022 \<le> k" "k \<le> 1023"
  shows "\<exists>y. double_of_rat x = Fin y \<and> 0 \<le> y \<and> y \<le> 2 powi k"
proof (cases "x = 0")
  case True
  then show ?thesis by (simp add: double_of_rat_def)
next
  case False
  with assms(1) have x: "0 < x" by simp
  define e where "e = max (floor_log2 \<bar>x\<bar>) (- 1022)"
  have "2 powi floor_log2 x \<le> x" using floor_log2_bounds[OF x] by simp
  with assms(2) have "(2::rat) powi floor_log2 x \<le> 2 powi k" by linarith
  then have "floor_log2 x \<le> k" by (rule powi2_le_imp_le)
  with assms(3) x have ek: "e \<le> k" by (simp add: e_def)
  define n where "n = nat (k - e + 52)"
  have n: "int n = k - e + 52" using ek by (simp add: n_def)
  have ulp: "(0::rat) < 2 powi (e - 52)" by simp
  have nk: "of_int (2 ^ n) * (2::rat) powi (e - 52) = 2 powi k"
  proof -
    have "(2::rat) powi k = 2 powi (int n + (e - 52))" using n by simp
    also have "\<dots> = 2 powi (int n) * 2 powi (e - 52)" by (rule power_int_add) simp
    finally show ?thesis by simp
  qed
  have "\<bar>x\<bar> / 2 powi (e - 52) \<le> of_int (2 ^ n)"
  proof -
    have "\<bar>x\<bar> \<le> of_int (2 ^ n) * (2::rat) powi (e - 52)" unfolding nk using assms(2) x by simp
    then show ?thesis using ulp by (simp add: pos_divide_le_eq)
  qed
  then have m: "round_half_even (\<bar>x\<bar> / 2 powi (e - 52)) \<le> 2 ^ n" by (rule round_half_even_le)
  have m0: "0 \<le> round_half_even (\<bar>x\<bar> / 2 powi (e - 52))" by (rule round_half_even_nonneg) simp
  define y where "y = of_int (round_half_even (\<bar>x\<bar> / 2 powi (e - 52))) * (2::rat) powi (e - 52)"
  have "y \<le> of_int (2 ^ n) * (2::rat) powi (e - 52)"
    unfolding y_def using m ulp by (intro mult_right_mono) (simp_all only: of_int_le_iff less_imp_le)
  then have yk: "y \<le> 2 powi k" by (simp only: nk)
  have y0: "0 \<le> y" unfolding y_def using m0 by simp
  have "(2::rat) powi k \<le> 2 powi 1023" using assms(4) by (intro power_int_increasing) simp_all
  then have "y < 2 ^ 1024" using yk by simp
  then have "double_of_rat x = Fin y"
    using False x unfolding double_of_rat_def Let_def e_def[symmetric] y_def[symmetric] by simp
  with y0 yk show ?thesis by blast
qed

text \<open>
  \<^verbatim>\<open>9.2\<close> is not a binary64 value, but \<^verbatim>\<open>9.2 * 1000\<close> rounds to \<open>9200\<close> exactly, so
  the target size is the integer the source's comment means.
\<close>

lemma TARGET_SIZE_MB_value: "TARGET_SIZE_MB = Fin (2589569785738035 / 281474976710656)"
  unfolding TARGET_SIZE_MB_def
  using double_of_rat_eqI[of 3 "92 / 10" 5179139571476070] by (simp add: power_int_minus_divide)

lemma target_size_bits_value: "target_size_bits = Fin 73600000"
proof -
  have a: "fmul TARGET_SIZE_MB (float_of_int 1000) = Fin 9200"
    unfolding TARGET_SIZE_MB_value float_of_int_consts
    using double_of_rat_eqI[of 13 "2589569785738035 / 281474976710656 * 1000" 5057753487769600]
    by (simp add: power_int_minus_divide)
  have b: "fmul (Fin 9200) (float_of_int 1000) = Fin 9200000"
    unfolding float_of_int_consts using double_of_rat_of_int[of 9200000] by simp
  have c: "fmul (Fin 9200000) (float_of_int 8) = Fin 73600000"
    unfolding float_of_int_consts using double_of_rat_of_int[of 73600000] by simp
  show ?thesis by (simp add: target_size_bits_def a b c)
qed

subsection \<open>Paths\<close>

lemma basename_no_sep: "CHR ''/'' \<notin> set (basename p)"
  by (auto simp: basename_def dest: set_takeWhileD)

lemma splitext_fst_subset: "set (fst (splitext p)) \<subseteq> set p"
proof -
  let ?n = "length (takeWhile (\<lambda>c. c \<noteq> CHR ''.'' \<and> c \<noteq> CHR ''/'') (rev p))"
  show ?thesis
  proof (cases "drop ?n (rev p)")
    case Nil
    then show ?thesis by (simp add: splitext_def)
  next
    case (Cons c root_rev)
    have "set (drop ?n (rev p)) \<subseteq> set (rev p)" by (rule set_drop_subset)
    with Cons have "set root_rev \<subseteq> set p" by auto
    with Cons show ?thesis by (auto simp: splitext_def Let_def)
  qed
qed

lemma base_name_no_sep: "CHR ''/'' \<notin> set (base_name_of input_file)"
  using splitext_fst_subset[of "basename input_file"] basename_no_sep[of input_file]
  by (auto simp: base_name_of_def)

lemma path_join_relative:
  assumes "b \<noteq> []" "hd b \<noteq> CHR ''/''"
  shows "path_join a b = (if a = [] then [] else if last a = CHR ''/'' then a else a @ ''/'') @ b"
  using assms by (simp add: path_join_def)

lemma file_name_relative:
  "base_name_of f @ ''_'' @ l @ ''.mp4'' \<noteq> [] \<and> hd (base_name_of f @ ''_'' @ l @ ''.mp4'') \<noteq> CHR ''/''"
  using base_name_no_sep[of f] by (cases "base_name_of f") auto

lemma label_suffix_inj:
  assumes "l \<in> {''360p'', ''480p'', ''720p'', ''9.5MB'', ''default''}"
    and "l' \<in> {''360p'', ''480p'', ''720p'', ''9.5MB'', ''default''}"
    and "b @ ''_'' @ l = b' @ ''_'' @ l'"
  shows "b = b' \<and> l = l'"
proof -
  from assms(3) have "rev (b @ ''_'' @ l) = rev (b' @ ''_'' @ l')" by (rule arg_cong)
  then have "rev l @ ''_'' @ rev b = rev l' @ ''_'' @ rev b'" by simp
  with assms(1,2) show ?thesis by auto
qed

subsection \<open>The shape of a run\<close>

lemma commands_append: "commands (xs @ ys) = commands xs @ commands ys"
  by (induction xs rule: commands.induct) simp_all

lemma select_mode_total: "\<exists>plan. select_mode mode vertical = Inr plan"
  by (auto simp: select_mode_def presets_vertical_def presets_landscape_def)

lemma get_video_duration_cases:
  "get_video_duration w f = ([Run (duration_argv f), ShowError DurationProbeFailed], None)
   \<or> (\<exists>d. get_video_duration w f = ([Run (duration_argv f)], Some d))"
  by (simp add: get_video_duration_def split: option.splits completed.splits)

lemma get_video_resolution_cases:
  "(subprocess_run w (resolution_argv f) = None \<and> get_video_resolution w f =
      ([Run (resolution_argv f), ShowError ResolutionProbeFailed], ''unknown''))
   \<or> (\<exists>rc out. subprocess_run w (resolution_argv f) = Some (Completed rc out)
        \<and> get_video_resolution w f = ([Run (resolution_argv f)], py_strip out))"
  by (simp add: get_video_resolution_def split: option.splits completed.splits)

lemma encode_missing_dir:
  assumes "\<not> path_exists w (output_dir_of w)"
  shows "encode w f d v = [ShowError (OutputDirectoryMissing (output_dir_of w))]"
  using assms select_mode_total[of "mode_var w" v] by (auto simp: encode_def Let_def)

lemma run_ffmpeg_reached:
  assumes "py_strip (input_entry w) = f" "f \<noteq> []" "path_exists w f"
    and "get_video_duration w f = (tr1, Some d)"
    and "get_video_resolution w f = (tr2, res)"
  shows "run_ffmpeg w =
           tr1 @ tr2 @ (case vertical_of res of Inl x \<Rightarrow> [Uncaught x] | Inr v \<Rightarrow> encode w f d v)"
  using assms by (simp add: run_ffmpeg_def Let_def split: sum.splits)

lemma rate_control_args_dialog:
  "rate_control_args plan n d = Inl (Dialog e) \<Longrightarrow> e = InsufficientBudget \<or> e = InvalidBitrate"
  by (auto simp: rate_control_args_def video_bitrate_kbps_def split: if_splits sum.splits)

lemma encode_no_missing_dir:
  assumes "path_exists w (output_dir_of w)"
  shows "ShowError (OutputDirectoryMissing p) \<notin> set (encode w f d v)"
proof -
  obtain plan where p: "select_mode (mode_var w) v = Inr plan"
    using select_mode_total by blast
  show ?thesis
  proof (cases "rate_control_args plan (use_nvenc_var w) d")
    case (Inl a)
    then show ?thesis using assms p rate_control_args_dialog[of plan "use_nvenc_var w" d]
      by (cases a) (auto simp: encode_def Let_def)
  next
    case (Inr args)
    then show ?thesis using assms p
      by (auto simp: encode_def Let_def run_encoder_def split: option.splits completed.splits)
  qed
qed

lemma run_ffmpeg_no_missing_dir:
  assumes "path_exists w (output_dir_of w)"
  shows "ShowError (OutputDirectoryMissing p) \<notin> set (run_ffmpeg w)"
proof -
  let ?f = "py_strip (input_entry w)"
  show ?thesis
  proof (cases "?f \<noteq> [] \<and> path_exists w ?f")
    case False
    then show ?thesis by (auto simp: run_ffmpeg_def Let_def)
  next
    case True
    from get_video_duration_cases[of w ?f] show ?thesis
    proof (elim disjE exE)
      assume "get_video_duration w ?f = ([Run (duration_argv ?f), ShowError DurationProbeFailed], None)"
      with True show ?thesis by (simp add: run_ffmpeg_def Let_def)
    next
      fix d assume d: "get_video_duration w ?f = ([Run (duration_argv ?f)], Some d)"
      obtain tr2 res where r: "get_video_resolution w ?f = (tr2, res)"
        and c: "ShowError (OutputDirectoryMissing p) \<notin> set tr2"
        using get_video_resolution_cases[of w ?f] by auto
      have "run_ffmpeg w = [Run (duration_argv ?f)] @ tr2 @
          (case vertical_of res of Inl x \<Rightarrow> [Uncaught x] | Inr v \<Rightarrow> encode w ?f d v)"
        using True d r by (intro run_ffmpeg_reached) simp_all
      then show ?thesis using c encode_no_missing_dir[OF assms]
        by (auto split: sum.splits)
    qed
  qed
qed

lemma encode_size_target_abort:
  assumes "mode_var w = ''9.5MB''" "path_exists w (output_dir_of w)"
    and "video_bitrate_kbps duration = Inl a"
  shows "encode w input_file duration vertical = abort_events a"
  using assms by (simp add: encode_def select_mode_def rate_control_args_def Let_def)

subsection \<open>Runs in the example worlds\<close>

lemmas demo_defs = demo_world_def demo_subprocess_def demo_exists_def demo_float_def
  py_strip_def py_isspace_def duration_argv_def resolution_argv_def

lemmas encode_defs = encode_def select_mode_def presets_landscape_def
  output_file_of_def base_name_of_def basename_def splitext_def path_join_def
  rate_control_args_def build_command_def run_encoder_def Let_def

lemma strip_clip: "py_strip ''/videos/clip.mp4'' = ''/videos/clip.mp4''"
  by (simp add: py_strip_def py_isspace_def)

lemma demo_duration:
  "get_video_duration demo_world ''/videos/clip.mp4'' =
     ([Run (duration_argv ''/videos/clip.mp4'')], Some (Fin 60))"
  by (simp add: get_video_duration_def demo_world_def demo_subprocess_def demo_float_def
      py_strip_def py_isspace_def)

lemma demo_resolution:
  "get_video_resolution demo_world ''/videos/clip.mp4'' =
     ([Run (resolution_argv ''/videos/clip.mp4'')], ''1920x1080'')"
  by (simp add: get_video_resolution_def demo_world_def demo_subprocess_def
      py_strip_def py_isspace_def duration_argv_def resolution_argv_def)

lemma demo_vertical: "vertical_of ''1920x1080'' = Inr False"
  by (simp add: vertical_of_def parse_resolution_def py_int_of_str_def int_isspace_def py_strip_def py_isspace_def
      is_digit_def digit_val_def)

lemma demo_encode_landscape_360p:
  assumes "mode_var w = ''360p''" "use_nvenc_var w = False"
    and "path_exists w = demo_exists" "output_dir_of w = ''/out''"
    and "subprocess_run w [''ffmpeg'', ''-i'', ''/videos/clip.mp4'', ''-vf'', ''scale=640:360'',
           ''-c:v'', ''libx264'', ''-preset'', ''slow'', ''-crf'', ''23'',
           ''-c:a'', ''aac'', ''-b:a'', ''128k'', ''-ar'', ''44100'', ''/out/clip_360p.mp4'']
         = Some (Completed 0 [])"
  shows "encode w ''/videos/clip.mp4'' (Fin 60) False =
     [Run [''ffmpeg'', ''-i'', ''/videos/clip.mp4'', ''-vf'', ''scale=640:360'',
           ''-c:v'', ''libx264'', ''-preset'', ''slow'', ''-crf'', ''23'',
           ''-c:a'', ''aac'', ''-b:a'', ''128k'', ''-ar'', ''44100'', ''/out/clip_360p.mp4''],
      ShowInfo ''/out/clip_360p.mp4'']"
  using assms by (simp add: encode_defs demo_exists_def)

lemma demo_run:
  "run_ffmpeg demo_world =
     [Run (duration_argv ''/videos/clip.mp4''), Run (resolution_argv ''/videos/clip.mp4''),
      Run [''ffmpeg'', ''-i'', ''/videos/clip.mp4'', ''-vf'', ''scale=640:360'',
           ''-c:v'', ''libx264'', ''-preset'', ''slow'', ''-crf'', ''23'',
           ''-c:a'', ''aac'', ''-b:a'', ''128k'', ''-ar'', ''44100'', ''/out/clip_360p.mp4''],
      ShowInfo ''/out/clip_360p.mp4'']"
proof -
  have e: "encode demo_world ''/videos/clip.mp4'' (Fin 60) False =
     [Run [''ffmpeg'', ''-i'', ''/videos/clip.mp4'', ''-vf'', ''scale=640:360'',
           ''-c:v'', ''libx264'', ''-preset'', ''slow'', ''-crf'', ''23'',
           ''-c:a'', ''aac'', ''-b:a'', ''128k'', ''-ar'', ''44100'', ''/out/clip_360p.mp4''],
      ShowInfo ''/out/clip_360p.mp4'']"
    by (simp add: encode_def select_mode_def presets_landscape_def output_dir_of_def
        demo_world_def demo_exists_def py_strip_def py_isspace_def Let_def
        output_file_of_def base_name_of_def basename_def splitext_def path_join_def
        rate_control_args_def build_command_def run_encoder_def demo_subprocess_def
        duration_argv_def resolution_argv_def)
  have i: "py_strip (input_entry demo_world) = ''/videos/clip.mp4''"
    by (simp add: demo_world_def strip_clip)
  have x: "path_exists demo_world ''/videos/clip.mp4''"
    by (simp add: demo_world_def demo_exists_def)
  show ?thesis
    by (simp add: run_ffmpeg_def Let_def i x demo_duration demo_resolution demo_vertical e)
qed

lemma missing_outdir_run:
  "run_ffmpeg missing_outdir_world =
       [Run (duration_argv ''/videos/clip.mp4''), Run (resolution_argv ''/videos/clip.mp4''),
        ShowError (OutputDirectoryMissing ''/nowhere'')]"
proof -
  let ?w = missing_outdir_world
  have o: "output_dir_of ?w = ''/nowhere''" "\<not> path_exists ?w (output_dir_of ?w)"
    by (simp_all add: missing_outdir_world_def output_dir_of_def demo_defs)
  have 3: "py_strip (input_entry ?w) = ''/videos/clip.mp4''" "path_exists ?w ''/videos/clip.mp4''"
    "get_video_duration ?w ''/videos/clip.mp4'' = ([Run (duration_argv ''/videos/clip.mp4'')], Some (Fin 60))"
    "get_video_resolution ?w ''/videos/clip.mp4'' = ([Run (resolution_argv ''/videos/clip.mp4'')], ''1920x1080'')"
    by (simp_all add: missing_outdir_world_def demo_defs get_video_duration_def get_video_resolution_def)
  have "run_ffmpeg ?w = [Run (duration_argv ''/videos/clip.mp4'')] @ [Run (resolution_argv ''/videos/clip.mp4'')]
      @ (case vertical_of ''1920x1080'' of Inl x \<Rightarrow> [Uncaught x]
         | Inr v \<Rightarrow> encode ?w ''/videos/clip.mp4'' (Fin 60) v)"
    using 3 by (intro run_ffmpeg_reached) simp_all
  then show ?thesis using o encode_missing_dir[of ?w "''/videos/clip.mp4''" "Fin 60" False]
    by (simp add: demo_vertical)
qed

lemma resolution_raises_run:
  "run_ffmpeg resolution_raises_world =
     [Run (duration_argv ''/videos/clip.mp4''), Run (resolution_argv ''/videos/clip.mp4''),
      ShowError ResolutionProbeFailed,
      Run [''ffmpeg'', ''-i'', ''/videos/clip.mp4'', ''-vf'', ''scale=640:360'',
           ''-c:v'', ''libx264'', ''-preset'', ''slow'', ''-crf'', ''23'',
           ''-c:a'', ''aac'', ''-b:a'', ''128k'', ''-ar'', ''44100'', ''/out/clip_360p.mp4''],
      ShowInfo ''/out/clip_360p.mp4'']"
proof -
  let ?w = resolution_raises_world
  have 1: "py_strip (input_entry ?w) = ''/videos/clip.mp4''" "path_exists ?w ''/videos/clip.mp4''"
    "get_video_duration ?w ''/videos/clip.mp4'' = ([Run (duration_argv ''/videos/clip.mp4'')], Some (Fin 60))"
    "get_video_resolution ?w ''/videos/clip.mp4'' =
       ([Run (resolution_argv ''/videos/clip.mp4''), ShowError ResolutionProbeFailed], ''unknown'')"
    by (simp_all add: resolution_raises_world_def demo_defs resolution_probe_raises_def
        get_video_duration_def get_video_resolution_def)
  have e: "encode ?w ''/videos/clip.mp4'' (Fin 60) False =
     [Run [''ffmpeg'', ''-i'', ''/videos/clip.mp4'', ''-vf'', ''scale=640:360'',
           ''-c:v'', ''libx264'', ''-preset'', ''slow'', ''-crf'', ''23'',
           ''-c:a'', ''aac'', ''-b:a'', ''128k'', ''-ar'', ''44100'', ''/out/clip_360p.mp4''],
      ShowInfo ''/out/clip_360p.mp4'']"
    by (rule demo_encode_landscape_360p)
       (simp_all add: resolution_raises_world_def demo_defs resolution_probe_raises_def
          output_dir_of_def)
  have "run_ffmpeg ?w = [Run (duration_argv ''/videos/clip.mp4'')]
      @ [Run (resolution_argv ''/videos/clip.mp4''), ShowError ResolutionProbeFailed]
      @ (case vertical_of ''unknown'' of Inl x \<Rightarrow> [Uncaught x]
         | Inr v \<Rightarrow> encode ?w ''/videos/clip.mp4'' (Fin 60) v)"
    using 1 by (intro run_ffmpeg_reached) simp_all
  then show ?thesis by (simp add: vertical_of_def e)
qed

subsection \<open>The scale filter (claims C1, C7 and C6)\<close>

lemma parse_resolution_ex: "parse_resolution ''1080x1920'' = Inr (1080, 1920)"
  by (simp add: parse_resolution_def py_int_of_str_def int_isspace_def py_strip_def py_isspace_def is_digit_def digit_val_def)

lemma parse_resolution_ex2: "parse_resolution ''1920x1080'' = Inr (1920, 1080)"
  by (simp add: parse_resolution_def py_int_of_str_def int_isspace_def py_strip_def py_isspace_def is_digit_def digit_val_def)

text \<open>
  Claim C1: for a source with width below height, the modes \<^verbatim>\<open>360p\<close>, \<^verbatim>\<open>480p\<close>,
  \<^verbatim>\<open>720p\<close> and \<^verbatim>\<open>9.5MB\<close> are to fix the height at 360, 480, 720 and 480 and leave the
  width automatic, which in \<^verbatim>\<open>scale=W:H\<close> is \<^verbatim>\<open>scale=-1:360\<close> and so on; the comment on
  line 146 of the source says the same (height fixed, width adjusted, \<^verbatim>\<open>-1:value\<close>).
  The presets of line 148 and the literal of line 157 are written the other way round: on
  the portrait source \<^verbatim>\<open>1080x1920\<close> the filter is \<^verbatim>\<open>scale=360:-1\<close>, which fixes the width.
\<close>

theorem vertical_scale_filter:
  "vertical_of ''1080x1920'' = Inr True
   \<and> select_mode ''360p'' True =
       Inr \<lparr>scaling_filter = Some ''scale=360:-1'', resolution_str = ''360p'', use_bitrate = False\<rparr>
   \<and> select_mode ''480p'' True =
       Inr \<lparr>scaling_filter = Some ''scale=480:-1'', resolution_str = ''480p'', use_bitrate = False\<rparr>
   \<and> select_mode ''720p'' True =
       Inr \<lparr>scaling_filter = Some ''scale=720:-1'', resolution_str = ''720p'', use_bitrate = False\<rparr>
   \<and> select_mode ''9.5MB'' True =
       Inr \<lparr>scaling_filter = Some ''scale=480:-1'', resolution_str = ''9.5MB'', use_bitrate = True\<rparr>"
  by (simp add: vertical_of_def parse_resolution_ex select_mode_def presets_vertical_def)

text \<open>
  Claim C7: for every source whose width is at least its height, the scale filter is
  \<^verbatim>\<open>scale=640:360\<close> for \<^verbatim>\<open>360p\<close>, \<^verbatim>\<open>scale=854:480\<close> for \<^verbatim>\<open>480p\<close>, \<^verbatim>\<open>scale=1280:720\<close>
  for \<^verbatim>\<open>720p\<close> and \<^verbatim>\<open>scale=854:480\<close> for \<^verbatim>\<open>9.5MB\<close>.
\<close>

theorem landscape_scale_filter:
  assumes "parse_resolution orig_res = Inr (orig_width, orig_height)"
    and "orig_height \<le> orig_width"
  shows "vertical_of orig_res = Inr False
   \<and> select_mode ''360p'' False =
       Inr \<lparr>scaling_filter = Some ''scale=640:360'', resolution_str = ''360p'', use_bitrate = False\<rparr>
   \<and> select_mode ''480p'' False =
       Inr \<lparr>scaling_filter = Some ''scale=854:480'', resolution_str = ''480p'', use_bitrate = False\<rparr>
   \<and> select_mode ''720p'' False =
       Inr \<lparr>scaling_filter = Some ''scale=1280:720'', resolution_str = ''720p'', use_bitrate = False\<rparr>
   \<and> select_mode ''9.5MB'' False =
       Inr \<lparr>scaling_filter = Some ''scale=854:480'', resolution_str = ''9.5MB'', use_bitrate = True\<rparr>"
  using assms by (simp add: vertical_of_def select_mode_def presets_landscape_def)

text \<open>The source \<^verbatim>\<open>1920x1080\<close> is such a source.\<close>

theorem landscape_scale_filter_witness:
  "parse_resolution ''1920x1080'' = Inr (1920, 1080) \<and> (1080::int) \<le> 1920
   \<and> vertical_of ''1920x1080'' = Inr False
   \<and> select_mode ''360p'' False =
       Inr \<lparr>scaling_filter = Some ''scale=640:360'', resolution_str = ''360p'', use_bitrate = False\<rparr>"
  using landscape_scale_filter[OF parse_resolution_ex2] parse_resolution_ex2 by simp

text \<open>
  Claim C6: for every mode other than \<^verbatim>\<open>360p\<close>, \<^verbatim>\<open>480p\<close>, \<^verbatim>\<open>720p\<close> and \<^verbatim>\<open>9.5MB\<close> the
  plan has no scale filter, the label \<^verbatim>\<open>default\<close> and no bitrate; the command then carries
  no \<^verbatim>\<open>-vf\<close>, the constant quality 23 (\<^verbatim>\<open>-crf 23\<close>, or \<^verbatim>\<open>-cq 23\<close> with NVENC) and an output
  file named \<^verbatim>\<open>_default.mp4\<close>.
\<close>

theorem unknown_mode_default:
  assumes "mode_var w \<notin> {''360p'', ''480p'', ''720p'', ''9.5MB''}"
  shows "select_mode (mode_var w) vertical =
           Inr \<lparr>scaling_filter = None, resolution_str = ''default'', use_bitrate = False\<rparr>
   \<and> rate_control_args
         \<lparr>scaling_filter = None, resolution_str = ''default'', use_bitrate = False\<rparr>
         (use_nvenc_var w) duration =
       Inr (if use_nvenc_var w
            then [''-c:v'', ''h264_nvenc'', ''-preset'', ''slow'', ''-cq'', ''23'']
            else [''-c:v'', ''libx264'', ''-preset'', ''slow'', ''-crf'', ''23''])
   \<and> (path_exists w (output_dir_of w) \<longrightarrow>
       encode w input_file duration vertical =
       run_encoder w
         ([''ffmpeg'', ''-i'', input_file]
          @ (if use_nvenc_var w
             then [''-c:v'', ''h264_nvenc'', ''-preset'', ''slow'', ''-cq'', ''23'']
             else [''-c:v'', ''libx264'', ''-preset'', ''slow'', ''-crf'', ''23''])
          @ [''-c:a'', ''aac'', ''-b:a'', ''128k'', ''-ar'', ''44100'',
             path_join (output_dir_of w) (base_name_of input_file @ ''_default.mp4'')])
         (path_join (output_dir_of w) (base_name_of input_file @ ''_default.mp4'')))"
  using assms
  by (simp add: select_mode_def encode_def rate_control_args_def build_command_def
      output_file_of_def Let_def)

text \<open>The mode \<^verbatim>\<open>1080p\<close> is such a mode.\<close>

theorem unknown_mode_default_witness:
  "mode_var unknown_mode_world \<notin> {''360p'', ''480p'', ''720p'', ''9.5MB''}
   \<and> path_exists unknown_mode_world (output_dir_of unknown_mode_world)
   \<and> encode unknown_mode_world ''/videos/clip.mp4'' (Fin 60) False =
       [Run [''ffmpeg'', ''-i'', ''/videos/clip.mp4'',
             ''-c:v'', ''libx264'', ''-preset'', ''slow'', ''-crf'', ''23'',
             ''-c:a'', ''aac'', ''-b:a'', ''128k'', ''-ar'', ''44100'', ''/out/clip_default.mp4''],
        ShowInfo ''/out/clip_default.mp4'']"
proof -
  have m: "mode_var unknown_mode_world \<notin> {''360p'', ''480p'', ''720p'', ''9.5MB''}"
    by (simp add: unknown_mode_world_def demo_defs)
  have p: "path_exists unknown_mode_world (output_dir_of unknown_mode_world)"
    by (simp add: unknown_mode_world_def output_dir_of_def demo_defs)
  have o: "path_join (output_dir_of unknown_mode_world)
             (base_name_of ''/videos/clip.mp4'' @ ''_default.mp4'') = ''/out/clip_default.mp4''"
    by (simp add: unknown_mode_world_def output_dir_of_def demo_defs path_join_def
        base_name_of_def basename_def splitext_def)
  have n: "use_nvenc_var unknown_mode_world = False"
    by (simp add: unknown_mode_world_def demo_defs)
  have s: "subprocess_run unknown_mode_world
       [''ffmpeg'', ''-i'', ''/videos/clip.mp4'',
        ''-c:v'', ''libx264'', ''-preset'', ''slow'', ''-crf'', ''23'',
        ''-c:a'', ''aac'', ''-b:a'', ''128k'', ''-ar'', ''44100'', ''/out/clip_default.mp4'']
      = Some (Completed 0 [])"
    by (simp add: unknown_mode_world_def demo_defs)
  from unknown_mode_default[OF m, of False "Fin 60" "''/videos/clip.mp4''"] p
  have "encode unknown_mode_world ''/videos/clip.mp4'' (Fin 60) False =
       [Run [''ffmpeg'', ''-i'', ''/videos/clip.mp4'',
             ''-c:v'', ''libx264'', ''-preset'', ''slow'', ''-crf'', ''23'',
             ''-c:a'', ''aac'', ''-b:a'', ''128k'', ''-ar'', ''44100'', ''/out/clip_default.mp4''],
        ShowInfo ''/out/clip_default.mp4'']"
    by (simp add: o n run_encoder_def s)
  with m p show ?thesis by blast
qed

subsection \<open>The bitrate for a target size (claims C2 and C3)\<close>

lemma budget_exhausted:
  assumes "fle target_size_bits (audio_total_bits duration)"
  shows "video_bitrate_kbps duration = Inl (Dialog InsufficientBudget)"
proof -
  have "fle (video_total_bits duration) (Fin 0)"
  proof (cases "audio_total_bits duration")
    case (Fin a)
    with assms have "73600000 - a \<le> 0" by (simp add: target_size_bits_value)
    then show ?thesis unfolding video_total_bits_def Fin target_size_bits_value
      by (simp add: double_of_rat_nonpos)
  next
    case PInf
    then show ?thesis by (simp add: video_total_bits_def target_size_bits_value)
  next
    case NInf
    with assms show ?thesis by (simp add: target_size_bits_value)
  next
    case NaN
    with assms show ?thesis by (simp add: target_size_bits_value)
  qed
  then show ?thesis by (simp add: video_bitrate_kbps_def float_of_int_0)
qed

lemma kbps_floor:
  assumes "duration = Fin r" "0 < r"
    and "video_total_bits duration = Fin v" "0 < v"
    and "video_bitrate_quotient duration = Inr (Fin x)"
  shows "video_bitrate_kbps duration =
           (if \<lfloor>x\<rfloor> \<le> 0 then Inl (Dialog InvalidBitrate) else Inr \<lfloor>x\<rfloor>)"
proof -
  have nz: "r \<noteq> 0" using assms(2) by simp
  from double_of_rat_nonneg[of "v / r"] assms(2,4)
  consider "double_of_rat (v / r) = PInf" | b where "double_of_rat (v / r) = Fin b" "0 \<le> b"
    by auto
  then have "0 \<le> x"
  proof cases
    case 1
    with assms(1,3,5) nz show ?thesis
      by (simp add: video_bitrate_quotient_def float_of_int_consts)
  next
    case 2
    with assms(1,3,5) nz have x: "double_of_rat (b / 1000) = Fin x"
      by (simp add: video_bitrate_quotient_def float_of_int_consts)
    from double_of_rat_nonneg[of "b / 1000"] 2(2) x show ?thesis by auto
  qed
  then show ?thesis using assms(3,4,5)
    by (simp add: video_bitrate_kbps_def float_of_int_0)
qed

lemma audio_total_bits_60: "audio_total_bits (Fin 60) = Fin 7680000"
  unfolding audio_total_bits_def AUDIO_BITRATE_def float_of_int_consts
  using double_of_rat_of_int[of 7680000] by simp

lemma video_total_bits_60: "video_total_bits (Fin 60) = Fin 65920000"
  unfolding video_total_bits_def audio_total_bits_def AUDIO_BITRATE_def target_size_bits_value
    float_of_int_consts
  using double_of_rat_of_int[of 7680000] double_of_rat_of_int[of 65920000] by simp

lemma video_bitrate_quotient_60:
  "video_bitrate_quotient (Fin 60) = Inr (Fin (4831987100199595 / 4398046511104))"
proof -
  have a: "double_of_rat (65920000 / 60) = Fin (4718737402538667 / 4294967296)"
    using double_of_rat_eqI[of 20 "65920000 / 60" 4718737402538667]
    by (simp add: power_int_minus_divide)
  have b: "double_of_rat (4718737402538667 / 4294967296 / 1000) = Fin (4831987100199595 / 4398046511104)"
    using double_of_rat_eqI[of 10 "4718737402538667 / 4294967296 / 1000" 4831987100199595]
    by (simp add: power_int_minus_divide)
  have "fdiv (video_total_bits (Fin 60)) (Fin 60) = Inr (Fin (4718737402538667 / 4294967296))"
    using a by (simp add: video_total_bits_60)
  moreover have "fdiv (Fin (4718737402538667 / 4294967296)) (float_of_int 1000)
      = Inr (Fin (4831987100199595 / 4398046511104))"
    using b by (simp add: float_of_int_consts)
  ultimately show ?thesis by (simp only: video_bitrate_quotient_def sum.case)
qed

lemma kbps_60: "video_bitrate_kbps (Fin 60) = Inr 1098"
proof -
  have fl: "\<lfloor>4831987100199595 / 4398046511104 :: rat\<rfloor> = 1098" by (simp add: floor_eq_iff)
  show ?thesis
    using kbps_floor[OF refl _ video_total_bits_60 _ video_bitrate_quotient_60]
    by (simp add: fl)
qed

lemma video_total_bits_572: "video_total_bits (Fin 572) = Fin 384000"
  unfolding video_total_bits_def audio_total_bits_def AUDIO_BITRATE_def target_size_bits_value
    float_of_int_consts
  using double_of_rat_of_int[of 73216000] double_of_rat_of_int[of 384000] by simp

lemma video_bitrate_quotient_572:
  "video_bitrate_quotient (Fin 572) = Inr (Fin (6046791108077869 / 9007199254740992))"
proof -
  have a: "double_of_rat (384000 / 572) = Fin (2952534720741147 / 4398046511104)"
    using double_of_rat_eqI[of 9 "384000 / 572" 5905069441482294]
    by (simp add: power_int_minus_divide)
  have b: "double_of_rat (2952534720741147 / 4398046511104 / 1000)
         = Fin (6046791108077869 / 9007199254740992)"
    using double_of_rat_eqI[of "- 1" "2952534720741147 / 4398046511104 / 1000" 6046791108077869]
    by (simp add: power_int_minus_divide)
  have "fdiv (video_total_bits (Fin 572)) (Fin 572) = Inr (Fin (2952534720741147 / 4398046511104))"
    using a by (simp add: video_total_bits_572)
  moreover have "fdiv (Fin (2952534720741147 / 4398046511104)) (float_of_int 1000)
      = Inr (Fin (6046791108077869 / 9007199254740992))"
    using b by (simp add: float_of_int_consts)
  ultimately show ?thesis by (simp only: video_bitrate_quotient_def sum.case)
qed

lemma video_total_bits_tiny: "video_total_bits (Fin tiny_duration) = Fin 73600000"
proof -
  have a: "double_of_rat (128000 * (1 / 2 ^ 1000)) = Fin (128000 / 2 ^ 1000)"
    using double_of_rat_eqI[of "- 984" "128000 * (1 / 2 ^ 1000)" 8796093022208000]
    by (simp add: power_int_minus_divide)
  have b: "double_of_rat (73600000 - 128000 / 2 ^ 1000) = Fin 73600000"
    using double_of_rat_eqI[of 26 "73600000 - 128000 / 2 ^ 1000" 4939212390400000]
    by (simp add: power_int_minus_divide)
  have "audio_total_bits (Fin tiny_duration) = Fin (128000 / 2 ^ 1000)"
    using a by (simp add: audio_total_bits_def AUDIO_BITRATE_def float_of_int_consts tiny_duration_def)
  then show ?thesis using b by (simp add: video_total_bits_def target_size_bits_value)
qed

lemma overflow_tiny: "double_of_rat (73600000 / tiny_duration) = PInf"
proof -
  have "floor_log2 (73600000 * 2 ^ 1000) = 1026" by (rule floor_log2_eqI) simp_all
  then show ?thesis
    by (simp add: double_of_rat_def round_half_even_of_int[of 4939212390400000, simplified] Let_def
        tiny_duration_def)
qed

lemma audio_total_bits_600: "audio_total_bits (Fin 600) = Fin 76800000"
  unfolding audio_total_bits_def AUDIO_BITRATE_def float_of_int_consts
  using double_of_rat_of_int[of 76800000] by simp

text \<open>The whole run of the example clip in the mode \<^verbatim>\<open>9.5MB\<close>.\<close>

lemma size_target_run:
  "run_ffmpeg size_target_world =
     [Run (duration_argv ''/videos/clip.mp4''), Run (resolution_argv ''/videos/clip.mp4''),
      Run [''ffmpeg'', ''-i'', ''/videos/clip.mp4'', ''-vf'', ''scale=854:480'',
           ''-b:v'', ''1098k'', ''-c:v'', ''libx264'', ''-preset'', ''slow'',
           ''-c:a'', ''aac'', ''-b:a'', ''128k'', ''-ar'', ''44100'', ''/out/clip_9.5MB.mp4''],
      ShowInfo ''/out/clip_9.5MB.mp4'']"
proof -
  let ?w = size_target_world
  let ?f = "''/videos/clip.mp4''"
  have 1: "py_strip (input_entry ?w) = ?f" "path_exists ?w ?f"
    "get_video_duration ?w ?f = ([Run (duration_argv ?f)], Some (Fin 60))"
    "get_video_resolution ?w ?f = ([Run (resolution_argv ?f)], ''1920x1080'')"
    by (simp_all add: size_target_world_def demo_defs get_video_duration_def
        get_video_resolution_def)
  have k: "str_int 1098 = ''1098''" by (simp add: str_int_def str_nat.simps)
  have a: "rate_control_args
       \<lparr>scaling_filter = Some ''scale=854:480'', resolution_str = ''9.5MB'', use_bitrate = True\<rparr>
       False (Fin 60)
     = Inr [''-b:v'', ''1098k'', ''-c:v'', ''libx264'', ''-preset'', ''slow'']"
    by (simp add: rate_control_args_def kbps_60 k)
  have e: "encode ?w ?f (Fin 60) False =
     [Run [''ffmpeg'', ''-i'', ''/videos/clip.mp4'', ''-vf'', ''scale=854:480'',
           ''-b:v'', ''1098k'', ''-c:v'', ''libx264'', ''-preset'', ''slow'',
           ''-c:a'', ''aac'', ''-b:a'', ''128k'', ''-ar'', ''44100'', ''/out/clip_9.5MB.mp4''],
      ShowInfo ''/out/clip_9.5MB.mp4'']"
    by (simp add: encode_def select_mode_def output_dir_of_def size_target_world_def a
        demo_defs Let_def output_file_of_def base_name_of_def basename_def splitext_def
        path_join_def build_command_def run_encoder_def)
  have "run_ffmpeg ?w = [Run (duration_argv ?f)] @ [Run (resolution_argv ?f)]
      @ (case vertical_of ''1920x1080'' of Inl x \<Rightarrow> [Uncaught x]
         | Inr v \<Rightarrow> encode ?w ?f (Fin 60) v)"
    using 1 by (intro run_ffmpeg_reached) simp_all
  then show ?thesis by (simp add: demo_vertical e)
qed

text \<open>From \<open>2\<^sup>-\<^sup>9\<^sup>0\<^sup>0\<close> seconds on, the quotient of lines 193 and 194 is finite.\<close>

lemma quotient_finite:
  assumes "1 / 2 ^ 900 \<le> r" "video_total_bits (Fin r) = Fin v" "0 < v"
  shows "\<exists>x. video_bitrate_quotient (Fin r) = Inr (Fin x)"
proof -
  have "(0::rat) < 1 / 2 ^ 900" by simp
  with assms(1) have r: "0 < r" by linarith
  from double_of_rat_nonneg[of "128000 * r"] r
  consider "audio_total_bits (Fin r) = PInf" | a where "audio_total_bits (Fin r) = Fin a" "0 \<le> a"
    by (auto simp: audio_total_bits_def AUDIO_BITRATE_def float_of_int_consts)
  then obtain a where a: "audio_total_bits (Fin r) = Fin a" "0 \<le> a"
  proof cases
    case 1
    with assms(2) show ?thesis by (simp add: video_total_bits_def target_size_bits_value)
  next
    case 2
    then show ?thesis using that by blast
  qed
  have v: "double_of_rat (73600000 - a) = Fin v"
    using assms(2) a(1) by (simp add: video_total_bits_def target_size_bits_value)
  have pos: "0 \<le> 73600000 - a"
  proof (rule ccontr)
    assume "\<not> 0 \<le> 73600000 - a"
    then have "fle (double_of_rat (73600000 - a)) (Fin 0)" by (intro double_of_rat_nonpos) simp
    with v assms(3) show False by simp
  qed
  have "73600000 - a \<le> 2 powi 27" using a(2) by simp
  from double_of_rat_bounded[OF pos this] v have v27: "v \<le> 2 ^ 27" by simp
  have "v / r \<le> 2 ^ 27 / (1 / 2 ^ 900)"
    using v27 assms(1,3) by (intro frac_le) simp_all
  also have "\<dots> = 2 powi 927" by simp
  finally have q: "v / r \<le> 2 powi 927" .
  have q0: "0 \<le> v / r" using assms(3) r by simp
  from double_of_rat_bounded[OF q0 q] obtain b
    where b: "double_of_rat (v / r) = Fin b" "0 \<le> b" "b \<le> 2 powi 927" by auto
  have "b / 1000 \<le> 2 powi 927" using b(2,3) by simp
  moreover have "0 \<le> b / 1000" using b(2) by simp
  ultimately obtain x where x: "double_of_rat (b / 1000) = Fin x"
    using double_of_rat_bounded[of "b / 1000" 927] by auto
  have "video_bitrate_quotient (Fin r) = Inr (Fin x)"
    using r b(1) x assms(2) by (simp add: video_bitrate_quotient_def float_of_int_consts)
  then show ?thesis by blast
qed

text \<open>
  Claim C2, as the code has it: for every duration above zero whose video budget
  \<^verbatim>\<open>video_total_bits\<close> is above zero, and for which the quotient
  \<^verbatim>\<open>video_total_bits / duration / 1000\<close> is a finite float \<open>x\<close>, the bitrate is
  \<open>\<lfloor>x\<rfloor>\<close> kbps, and the run stops with the invalid-bitrate dialog exactly when \<open>\<lfloor>x\<rfloor> \<le> 0\<close>.
  The quotient is finite for every duration of at least \<open>2\<^sup>-\<^sup>9\<^sup>0\<^sup>0\<close> seconds.
  For one minute the target is 73,600,000 bits, the audio takes 7,680,000, the video gets
  65,920,000, and the bitrate is 1098 kbps.
\<close>

theorem size_target_bitrate:
  "(duration = Fin r \<and> 0 < r \<and> video_total_bits duration = Fin v \<and> 0 < v
      \<and> video_bitrate_quotient duration = Inr (Fin x)
    \<longrightarrow> video_bitrate_kbps duration =
          (if \<lfloor>x\<rfloor> \<le> 0 then Inl (Dialog InvalidBitrate) else Inr \<lfloor>x\<rfloor>))
   \<and> (duration = Fin r \<and> 1 / 2 ^ 900 \<le> r \<and> video_total_bits duration = Fin v \<and> 0 < v
    \<longrightarrow> (\<exists>y. video_bitrate_quotient duration = Inr (Fin y)))
   \<and> target_size_bits = Fin 73600000
   \<and> audio_total_bits (Fin 60) = Fin 7680000
   \<and> video_total_bits (Fin 60) = Fin 65920000
   \<and> video_bitrate_kbps (Fin 60) = Inr 1098"
proof (intro conjI impI)
  assume "duration = Fin r \<and> 0 < r \<and> video_total_bits duration = Fin v \<and> 0 < v
      \<and> video_bitrate_quotient duration = Inr (Fin x)"
  then have a: "duration = Fin r" "0 < r" "video_total_bits duration = Fin v" "0 < v"
    "video_bitrate_quotient duration = Inr (Fin x)" by blast+
  show "video_bitrate_kbps duration =
          (if \<lfloor>x\<rfloor> \<le> 0 then Inl (Dialog InvalidBitrate) else Inr \<lfloor>x\<rfloor>)"
    using a by (rule kbps_floor)
next
  assume "duration = Fin r \<and> 1 / 2 ^ 900 \<le> r \<and> video_total_bits duration = Fin v \<and> 0 < v"
  then have "1 / 2 ^ 900 \<le> r" "video_total_bits (Fin r) = Fin v" "0 < v" by blast+
  then have "\<exists>y. video_bitrate_quotient (Fin r) = Inr (Fin y)" by (rule quotient_finite)
  with \<open>duration = Fin r \<and> 1 / 2 ^ 900 \<le> r \<and> video_total_bits duration = Fin v \<and> 0 < v\<close>
  show "\<exists>y. video_bitrate_quotient duration = Inr (Fin y)" by blast
qed (simp_all add: target_size_bits_value audio_total_bits_60 video_total_bits_60 kbps_60)

text \<open>At 572 seconds the quotient is about 0.67, and the bitrate is refused.\<close>

theorem size_target_bitrate_witness:
  "(0::rat) < 572 \<and> video_total_bits (Fin 572) = Fin 384000 \<and> (0::rat) < 384000
   \<and> video_bitrate_quotient (Fin 572) = Inr (Fin (6046791108077869 / 9007199254740992))
   \<and> video_bitrate_kbps (Fin 572) = Inl (Dialog InvalidBitrate)"
proof -
  have fl: "\<lfloor>6046791108077869 / 9007199254740992 :: rat\<rfloor> = 0" by (simp add: floor_eq_iff)
  have h: "Fin 572 = Fin 572 \<and> (0::rat) < 572 \<and> video_total_bits (Fin 572) = Fin 384000
      \<and> (0::rat) < 384000
      \<and> video_bitrate_quotient (Fin 572) = Inr (Fin (6046791108077869 / 9007199254740992))"
    by (simp add: video_total_bits_572 video_bitrate_quotient_572)
  from size_target_bitrate[of "Fin 572" 572 384000 "6046791108077869 / 9007199254740992"] h
  have "video_bitrate_kbps (Fin 572) =
      (if \<lfloor>6046791108077869 / 9007199254740992 :: rat\<rfloor> \<le> 0
       then Inl (Dialog InvalidBitrate) else Inr \<lfloor>6046791108077869 / 9007199254740992 :: rat\<rfloor>)"
    by blast
  then have "video_bitrate_kbps (Fin 572) = Inl (Dialog InvalidBitrate)" by (simp only: fl) simp
  with h show ?thesis by blast
qed

text \<open>
  Without the finiteness of the quotient the statement fails: for a duration of
  \<open>2\<^sup>-\<^sup>1\<^sup>0\<^sup>0\<^sup>0\<close> seconds the budget is positive, the division of line 193 overflows to
  infinity, and \<^verbatim>\<open>int\<close> in line 194 raises \<^verbatim>\<open>OverflowError\<close>: no bitrate, and no dialog.
\<close>

theorem size_target_bitrate_counterexample:
  "0 < tiny_duration
   \<and> video_total_bits (Fin tiny_duration) = Fin 73600000
   \<and> video_bitrate_kbps (Fin tiny_duration) = Inl (Raise OverflowError)"
proof -
  have nz: "tiny_duration \<noteq> 0" "0 < tiny_duration" by (simp_all add: tiny_duration_def)
  have "fdiv (video_total_bits (Fin tiny_duration)) (Fin tiny_duration) = Inr PInf"
    using nz(1) by (simp only: video_total_bits_tiny fdiv.simps if_False pyfloat.case overflow_tiny)
  then have "video_bitrate_quotient (Fin tiny_duration) = Inr PInf"
    by (simp add: video_bitrate_quotient_def float_of_int_consts)
  then show ?thesis using nz(2)
    by (simp add: video_bitrate_kbps_def video_total_bits_tiny float_of_int_0)
qed

text \<open>
  Claim C3: for every duration whose audio bits \<^verbatim>\<open>128000 * duration\<close> reach the target
  size, the bitrate computation stops with the insufficient-budget dialog, before any
  division; a \<^verbatim>\<open>9.5MB\<close> request that got as far as the rate control then shows that
  dialog and starts no encoder. Ten minutes are too long: 76,800,000 audio bits.
\<close>

theorem insufficient_budget:
  "(fle target_size_bits (audio_total_bits duration) \<longrightarrow>
      video_bitrate_kbps duration = Inl (Dialog InsufficientBudget)
      \<and> (mode_var w = ''9.5MB'' \<and> path_exists w (output_dir_of w) \<longrightarrow>
           encode w input_file duration vertical = [ShowError InsufficientBudget]))
   \<and> audio_total_bits (Fin 600) = Fin 76800000
   \<and> video_bitrate_kbps (Fin 600) = Inl (Dialog InsufficientBudget)"
proof -
  have "fle target_size_bits (audio_total_bits (Fin 600))"
    by (simp add: audio_total_bits_600 target_size_bits_value)
  then have "video_bitrate_kbps (Fin 600) = Inl (Dialog InsufficientBudget)"
    by (rule budget_exhausted)
  then show ?thesis
    using budget_exhausted[of duration]
      encode_size_target_abort[of w duration "Dialog InsufficientBudget" input_file vertical]
    by (simp add: audio_total_bits_600)
qed

text \<open>The example clip, had it lasted ten minutes.\<close>

theorem insufficient_budget_witness:
  "fle target_size_bits (audio_total_bits (Fin 600))
   \<and> mode_var size_target_world = ''9.5MB''
   \<and> path_exists size_target_world (output_dir_of size_target_world)
   \<and> encode size_target_world ''/videos/clip.mp4'' (Fin 600) False = [ShowError InsufficientBudget]"
proof -
  have h: "fle target_size_bits (audio_total_bits (Fin 600))"
    by (simp add: audio_total_bits_600 target_size_bits_value)
  have w: "mode_var size_target_world = ''9.5MB''
      \<and> path_exists size_target_world (output_dir_of size_target_world)"
    by (simp add: size_target_world_def output_dir_of_def demo_defs)
  from insufficient_budget[of "Fin 600" size_target_world "''/videos/clip.mp4''" False] h w
  have "encode size_target_world ''/videos/clip.mp4'' (Fin 600) False = [ShowError InsufficientBudget]"
    by blast
  with h w show ?thesis by blast
qed

subsection \<open>Validation and probe failures (claims C4 and C5)\<close>

text \<open>
  Claim C4, as the code has it: with no input file given, or with an input file that does
  not exist, the run is one dialog and no process is started. With a missing output
  directory no encoder is started, but the directory is only looked at in line 172, after
  both probes: the only commands of such a run are the two \<^verbatim>\<open>ffprobe\<close> calls, and when
  both probes succeed the run ends with the missing-directory dialog. The check is
  \<^verbatim>\<open>os.path.exists\<close> and nothing more: a path that exists never gets that dialog.
\<close>

theorem validation_aborts:
  "(py_strip (input_entry w) = [] \<longrightarrow> run_ffmpeg w = [ShowError InputNotSpecified])
   \<and> (py_strip (input_entry w) \<noteq> [] \<and> \<not> path_exists w (py_strip (input_entry w))
        \<longrightarrow> run_ffmpeg w = [ShowError SourceNotFound])
   \<and> (\<not> path_exists w (output_dir_of w) \<longrightarrow>
        set (commands (run_ffmpeg w))
          \<subseteq> {duration_argv (py_strip (input_entry w)), resolution_argv (py_strip (input_entry w))})
   \<and> (\<not> path_exists w (output_dir_of w)
        \<and> py_strip (input_entry w) \<noteq> [] \<and> path_exists w (py_strip (input_entry w))
        \<and> get_video_duration w (py_strip (input_entry w)) = (tr1, Some d)
        \<and> get_video_resolution w (py_strip (input_entry w)) = (tr2, res)
        \<and> vertical_of res = Inr v
        \<longrightarrow> run_ffmpeg w = tr1 @ tr2 @ [ShowError (OutputDirectoryMissing (output_dir_of w))])
   \<and> (path_exists w (output_dir_of w)
        \<longrightarrow> ShowError (OutputDirectoryMissing p) \<notin> set (run_ffmpeg w))"
proof (intro conjI impI)
  assume "path_exists w (output_dir_of w)"
  then show "ShowError (OutputDirectoryMissing p) \<notin> set (run_ffmpeg w)"
    by (rule run_ffmpeg_no_missing_dir)
next
  assume "py_strip (input_entry w) = []"
  then show "run_ffmpeg w = [ShowError InputNotSpecified]" by (simp add: run_ffmpeg_def)
next
  assume "py_strip (input_entry w) \<noteq> [] \<and> \<not> path_exists w (py_strip (input_entry w))"
  then show "run_ffmpeg w = [ShowError SourceNotFound]" by (simp add: run_ffmpeg_def Let_def)
next
  let ?f = "py_strip (input_entry w)"
  assume m: "\<not> path_exists w (output_dir_of w)"
  show "set (commands (run_ffmpeg w)) \<subseteq> {duration_argv ?f, resolution_argv ?f}"
  proof (cases "?f \<noteq> [] \<and> path_exists w ?f")
    case False
    then show ?thesis by (auto simp: run_ffmpeg_def Let_def)
  next
    case True
    from get_video_duration_cases[of w ?f] show ?thesis
    proof (elim disjE exE)
      assume "get_video_duration w ?f = ([Run (duration_argv ?f), ShowError DurationProbeFailed], None)"
      with True show ?thesis by (simp add: run_ffmpeg_def Let_def)
    next
      fix d assume d: "get_video_duration w ?f = ([Run (duration_argv ?f)], Some d)"
      obtain tr2 res where r: "get_video_resolution w ?f = (tr2, res)"
        and c: "commands tr2 = [resolution_argv ?f]"
        using get_video_resolution_cases[of w ?f] by auto
      have "run_ffmpeg w = [Run (duration_argv ?f)] @ tr2 @
          (case vertical_of res of Inl x \<Rightarrow> [Uncaught x] | Inr v \<Rightarrow> encode w ?f d v)"
        using True d r by (intro run_ffmpeg_reached) simp_all
      then show ?thesis using c m
        by (auto simp: commands_append encode_missing_dir split: sum.splits)
    qed
  qed
next
  let ?f = "py_strip (input_entry w)"
  assume a: "\<not> path_exists w (output_dir_of w)
        \<and> ?f \<noteq> [] \<and> path_exists w ?f
        \<and> get_video_duration w ?f = (tr1, Some d)
        \<and> get_video_resolution w ?f = (tr2, res)
        \<and> vertical_of res = Inr v"
  then have "run_ffmpeg w = tr1 @ tr2 @
          (case vertical_of res of Inl x \<Rightarrow> [Uncaught x] | Inr v \<Rightarrow> encode w ?f d v)"
    by (intro run_ffmpeg_reached) simp_all
  with a show "run_ffmpeg w = tr1 @ tr2 @ [ShowError (OutputDirectoryMissing (output_dir_of w))]"
    by (simp add: encode_missing_dir)
qed

text \<open>A blank input entry, a source that is gone, and an output directory that is gone.\<close>

theorem validation_aborts_witness:
  "py_strip (input_entry blank_input_world) = []
   \<and> run_ffmpeg blank_input_world = [ShowError InputNotSpecified]
   \<and> \<not> path_exists missing_source_world (py_strip (input_entry missing_source_world))
   \<and> run_ffmpeg missing_source_world = [ShowError SourceNotFound]
   \<and> \<not> path_exists missing_outdir_world (output_dir_of missing_outdir_world)
   \<and> run_ffmpeg missing_outdir_world =
       [Run (duration_argv ''/videos/clip.mp4''), Run (resolution_argv ''/videos/clip.mp4''),
        ShowError (OutputDirectoryMissing ''/nowhere'')]"
proof -
  have 1: "py_strip (input_entry blank_input_world) = []"
    by (simp add: blank_input_world_def demo_defs)
  have 2: "py_strip (input_entry missing_source_world) \<noteq> []
      \<and> \<not> path_exists missing_source_world (py_strip (input_entry missing_source_world))"
    by (simp add: missing_source_world_def demo_defs)
  have o: "output_dir_of missing_outdir_world = ''/nowhere''"
    by (simp add: missing_outdir_world_def output_dir_of_def demo_defs)
  have f: "py_strip (input_entry missing_outdir_world) = ''/videos/clip.mp4''"
    by (simp add: missing_outdir_world_def demo_defs)
  have 3: "\<not> path_exists missing_outdir_world (output_dir_of missing_outdir_world)
        \<and> py_strip (input_entry missing_outdir_world) \<noteq> []
        \<and> path_exists missing_outdir_world (py_strip (input_entry missing_outdir_world))
        \<and> get_video_duration missing_outdir_world (py_strip (input_entry missing_outdir_world))
            = ([Run (duration_argv ''/videos/clip.mp4'')], Some (Fin 60))
        \<and> get_video_resolution missing_outdir_world (py_strip (input_entry missing_outdir_world))
            = ([Run (resolution_argv ''/videos/clip.mp4'')], ''1920x1080'')
        \<and> vertical_of ''1920x1080'' = Inr False"
    unfolding o f
    by (simp add: missing_outdir_world_def demo_defs get_video_duration_def
        get_video_resolution_def demo_vertical)
  from validation_aborts[of blank_input_world] 1
  have r1: "run_ffmpeg blank_input_world = [ShowError InputNotSpecified]" by blast
  from validation_aborts[of missing_source_world] 2
  have r2: "run_ffmpeg missing_source_world = [ShowError SourceNotFound]" by blast
  from validation_aborts[of missing_outdir_world "[Run (duration_argv ''/videos/clip.mp4'')]"
      "Fin 60" "[Run (resolution_argv ''/videos/clip.mp4'')]" "''1920x1080''" False] 3
  have "run_ffmpeg missing_outdir_world =
      [Run (duration_argv ''/videos/clip.mp4'')] @ [Run (resolution_argv ''/videos/clip.mp4'')]
      @ [ShowError (OutputDirectoryMissing (output_dir_of missing_outdir_world))]" by blast
  then have r3: "run_ffmpeg missing_outdir_world =
       [Run (duration_argv ''/videos/clip.mp4''), Run (resolution_argv ''/videos/clip.mp4''),
        ShowError (OutputDirectoryMissing ''/nowhere'')]" by (simp add: o)
  from 1 2 3 r1 r2 r3 show ?thesis by blast
qed

text \<open>
  With the missing output directory \<^verbatim>\<open>/nowhere\<close>, two processes have been started by the
  time the run is aborted.
\<close>

theorem validation_aborts_counterexample:
  "\<not> path_exists missing_outdir_world (output_dir_of missing_outdir_world)
   \<and> commands (run_ffmpeg missing_outdir_world) =
       [duration_argv ''/videos/clip.mp4'', resolution_argv ''/videos/clip.mp4'']"
  by (simp add: missing_outdir_run) (simp add: missing_outdir_world_def output_dir_of_def demo_defs)

text \<open>
  Claim C5, as the code has it: when the duration probe fails, because \<^verbatim>\<open>ffprobe\<close> cannot be
  started or because its output is not a float, the run is that call and the dialog, and
  nothing is started after it. When the resolution probe cannot be started,
  \<^verbatim>\<open>get_video_resolution\<close> shows its dialog and returns \<^verbatim>\<open>"unknown"\<close>, and lines 139 to 143
  go on with \<^verbatim>\<open>vertical = False\<close>: the encode proceeds as for a landscape source.
\<close>

theorem probe_failure:
  "py_strip (input_entry w) = f \<and> f \<noteq> [] \<and> path_exists w f \<longrightarrow>
     (subprocess_run w (duration_argv f) = None
        \<longrightarrow> run_ffmpeg w = [Run (duration_argv f), ShowError DurationProbeFailed])
   \<and> (subprocess_run w (duration_argv f) = Some (Completed rc out)
        \<and> float_of_str w (py_strip out) = None
        \<longrightarrow> run_ffmpeg w = [Run (duration_argv f), ShowError DurationProbeFailed])
   \<and> (get_video_duration w f = (tr1, Some d)
        \<and> subprocess_run w (resolution_argv f) = None
        \<longrightarrow> run_ffmpeg w =
              [Run (duration_argv f), Run (resolution_argv f), ShowError ResolutionProbeFailed]
              @ encode w f d False)"
proof (intro impI conjI)
  assume a: "py_strip (input_entry w) = f \<and> f \<noteq> [] \<and> path_exists w f"
    and "subprocess_run w (duration_argv f) = None"
  then show "run_ffmpeg w = [Run (duration_argv f), ShowError DurationProbeFailed]"
    by (simp add: run_ffmpeg_def Let_def get_video_duration_def)
next
  assume a: "py_strip (input_entry w) = f \<and> f \<noteq> [] \<and> path_exists w f"
    and "subprocess_run w (duration_argv f) = Some (Completed rc out)
        \<and> float_of_str w (py_strip out) = None"
  then show "run_ffmpeg w = [Run (duration_argv f), ShowError DurationProbeFailed]"
    by (simp add: run_ffmpeg_def Let_def get_video_duration_def)
next
  assume a: "py_strip (input_entry w) = f \<and> f \<noteq> [] \<and> path_exists w f"
    and b: "get_video_duration w f = (tr1, Some d) \<and> subprocess_run w (resolution_argv f) = None"
  from b have tr1: "tr1 = [Run (duration_argv f)]"
    using get_video_duration_cases[of w f] by auto
  from b have r: "get_video_resolution w f =
      ([Run (resolution_argv f), ShowError ResolutionProbeFailed], ''unknown'')"
    by (simp add: get_video_resolution_def)
  have "run_ffmpeg w = tr1 @ [Run (resolution_argv f), ShowError ResolutionProbeFailed] @
      (case vertical_of ''unknown'' of Inl x \<Rightarrow> [Uncaught x] | Inr v \<Rightarrow> encode w f d v)"
    using a b r by (intro run_ffmpeg_reached) simp_all
  then show "run_ffmpeg w =
              [Run (duration_argv f), Run (resolution_argv f), ShowError ResolutionProbeFailed]
              @ encode w f d False"
    by (simp add: tr1 vertical_of_def)
qed

text \<open>
  A machine without \<^verbatim>\<open>ffprobe\<close>, a source for which \<^verbatim>\<open>ffprobe\<close> prints no duration, and a
  machine on which \<^verbatim>\<open>ffprobe\<close> cannot be started for the resolution.
\<close>

theorem probe_failure_witness:
  "subprocess_run no_ffprobe_world (duration_argv ''/videos/clip.mp4'') = None
   \<and> run_ffmpeg no_ffprobe_world =
       [Run (duration_argv ''/videos/clip.mp4''), ShowError DurationProbeFailed]
   \<and> subprocess_run no_duration_world (duration_argv ''/videos/clip.mp4'')
       = Some (Completed 1 [])
   \<and> float_of_str no_duration_world (py_strip []) = None
   \<and> run_ffmpeg no_duration_world =
       [Run (duration_argv ''/videos/clip.mp4''), ShowError DurationProbeFailed]
   \<and> subprocess_run resolution_raises_world (resolution_argv ''/videos/clip.mp4'') = None
   \<and> run_ffmpeg resolution_raises_world =
       [Run (duration_argv ''/videos/clip.mp4''), Run (resolution_argv ''/videos/clip.mp4''),
        ShowError ResolutionProbeFailed]
       @ encode resolution_raises_world ''/videos/clip.mp4'' (Fin 60) False"
proof -
  let ?f = "''/videos/clip.mp4''"
  have a: "py_strip (input_entry no_ffprobe_world) = ?f \<and> ?f \<noteq> [] \<and> path_exists no_ffprobe_world ?f"
    "subprocess_run no_ffprobe_world (duration_argv ?f) = None"
    by (simp_all add: no_ffprobe_world_def nothing_installed_def demo_defs)
  have c: "py_strip (input_entry no_duration_world) = ?f \<and> ?f \<noteq> []
      \<and> path_exists no_duration_world ?f"
    "subprocess_run no_duration_world (duration_argv ?f) = Some (Completed 1 [])
        \<and> float_of_str no_duration_world (py_strip []) = None"
    by (simp_all add: no_duration_world_def duration_probe_silent_def demo_defs)
  have d: "py_strip (input_entry resolution_raises_world) = ?f \<and> ?f \<noteq> []
      \<and> path_exists resolution_raises_world ?f"
    "get_video_duration resolution_raises_world ?f = ([Run (duration_argv ?f)], Some (Fin 60))
        \<and> subprocess_run resolution_raises_world (resolution_argv ?f) = None"
    by (simp_all add: resolution_raises_world_def resolution_probe_raises_def demo_defs
        get_video_duration_def)
  from probe_failure[of no_ffprobe_world ?f] a
  have r1: "run_ffmpeg no_ffprobe_world = [Run (duration_argv ?f), ShowError DurationProbeFailed]"
    by blast
  from probe_failure[of no_duration_world ?f 1 "[]"] c
  have r2: "run_ffmpeg no_duration_world = [Run (duration_argv ?f), ShowError DurationProbeFailed]"
    by blast
  from probe_failure[of resolution_raises_world ?f _ _ "[Run (duration_argv ?f)]" "Fin 60"] d
  have r3: "run_ffmpeg resolution_raises_world =
       [Run (duration_argv ?f), Run (resolution_argv ?f), ShowError ResolutionProbeFailed]
       @ encode resolution_raises_world ?f (Fin 60) False"
    by blast
  from a c d r1 r2 r3 show ?thesis by blast
qed

text \<open>In the last of these worlds the encoder runs after the failed resolution probe.\<close>

theorem probe_failure_counterexample:
  "subprocess_run resolution_raises_world (resolution_argv ''/videos/clip.mp4'') = None
   \<and> commands (run_ffmpeg resolution_raises_world) =
     [duration_argv ''/videos/clip.mp4'', resolution_argv ''/videos/clip.mp4'',
      [''ffmpeg'', ''-i'', ''/videos/clip.mp4'', ''-vf'', ''scale=640:360'',
       ''-c:v'', ''libx264'', ''-preset'', ''slow'', ''-crf'', ''23'',
       ''-c:a'', ''aac'', ''-b:a'', ''128k'', ''-ar'', ''44100'', ''/out/clip_360p.mp4'']]"
  by (simp add: resolution_raises_run)
     (simp add: resolution_raises_world_def demo_defs resolution_probe_raises_def)

subsection \<open>The output file (claims C8 and C10)\<close>

text \<open>
  Claim C8: the label of a plan is one of \<^verbatim>\<open>360p\<close>, \<^verbatim>\<open>480p\<close>, \<^verbatim>\<open>720p\<close>, \<^verbatim>\<open>9.5MB\<close> and
  \<^verbatim>\<open>default\<close>; the output file is the output directory joined with the base name of the
  source, an underscore, the label and \<^verbatim>\<open>.mp4\<close>; and for a fixed output directory two
  output files are equal only if the base names and the labels are.
\<close>

theorem output_file_injective:
  "(select_mode mode vertical = Inr plan \<longrightarrow>
      resolution_str plan \<in> {''360p'', ''480p'', ''720p'', ''9.5MB'', ''default''})
   \<and> output_file_of output_dir input_file l =
       path_join output_dir (fst (splitext (basename input_file)) @ ''_'' @ l @ ''.mp4'')
   \<and> (l \<in> {''360p'', ''480p'', ''720p'', ''9.5MB'', ''default''}
        \<and> l' \<in> {''360p'', ''480p'', ''720p'', ''9.5MB'', ''default''}
        \<and> output_file_of output_dir input_file l = output_file_of output_dir input_file' l'
      \<longrightarrow> base_name_of input_file = base_name_of input_file' \<and> l = l')"
proof (intro conjI impI)
  assume "select_mode mode vertical = Inr plan"
  then show "resolution_str plan \<in> {''360p'', ''480p'', ''720p'', ''9.5MB'', ''default''}"
    by (auto simp: select_mode_def split: if_splits option.splits)
next
  show "output_file_of output_dir input_file l =
       path_join output_dir (fst (splitext (basename input_file)) @ ''_'' @ l @ ''.mp4'')"
    by (simp add: output_file_of_def base_name_of_def)
next
  assume a: "l \<in> {''360p'', ''480p'', ''720p'', ''9.5MB'', ''default''}
        \<and> l' \<in> {''360p'', ''480p'', ''720p'', ''9.5MB'', ''default''}
        \<and> output_file_of output_dir input_file l = output_file_of output_dir input_file' l'"
  let ?pre = "if output_dir = [] then [] else if last output_dir = CHR ''/'' then output_dir else output_dir @ ''/''"
  have e1: "output_file_of output_dir input_file l = ?pre @ (base_name_of input_file @ ''_'' @ l @ ''.mp4'')"
    unfolding output_file_of_def
    by (rule path_join_relative[OF file_name_relative[THEN conjunct1] file_name_relative[THEN conjunct2]])
  have e2: "output_file_of output_dir input_file' l' = ?pre @ (base_name_of input_file' @ ''_'' @ l' @ ''.mp4'')"
    unfolding output_file_of_def
    by (rule path_join_relative[OF file_name_relative[THEN conjunct1] file_name_relative[THEN conjunct2]])
  from a e1 e2 have "?pre @ (base_name_of input_file @ ''_'' @ l @ ''.mp4'')
             = ?pre @ (base_name_of input_file' @ ''_'' @ l' @ ''.mp4'')"
    by simp
  then have "base_name_of input_file @ ''_'' @ l = base_name_of input_file' @ ''_'' @ l'"
    by simp
  with a show "base_name_of input_file = base_name_of input_file'" "l = l'"
    using label_suffix_inj[of l l' "base_name_of input_file" "base_name_of input_file'"] by simp_all
qed

text \<open>Two sources with the same base name and mode do collide, as the statement allows.\<close>

theorem output_file_injective_witness:
  "''360p'' \<in> {''360p'', ''480p'', ''720p'', ''9.5MB'', ''default''}
   \<and> output_file_of ''/out'' ''/a/clip.mp4'' ''360p'' = output_file_of ''/out'' ''/b/clip.avi'' ''360p''
   \<and> output_file_of ''/out'' ''/a/clip.mp4'' ''360p'' = ''/out/clip_360p.mp4''
   \<and> base_name_of ''/a/clip.mp4'' = base_name_of ''/b/clip.avi''"
proof -
  have e: "output_file_of ''/out'' ''/a/clip.mp4'' ''360p'' = ''/out/clip_360p.mp4''"
    "output_file_of ''/out'' ''/b/clip.avi'' ''360p'' = ''/out/clip_360p.mp4''"
    by (simp_all add: output_file_of_def base_name_of_def basename_def splitext_def path_join_def)
  have l: "''360p'' \<in> {''360p'', ''480p'', ''720p'', ''9.5MB'', ''default''}" by simp
  from output_file_injective[of _ _ _ "''/out''" "''/a/clip.mp4''" "''360p''" "''360p''" "''/b/clip.avi''"]
    e l
  have "base_name_of ''/a/clip.mp4'' = base_name_of ''/b/clip.avi''" by metis
  with e l show ?thesis by simp
qed

text \<open>
  Claim C10: when the output directory entry is blank, the output directory is the home
  directory joined with \<^verbatim>\<open>Desktop\<close>, and only the existence of that directory is checked: if
  it is missing the dialog names it, if it exists no run shows a missing-directory dialog and
  the encoder writes into it.
\<close>

theorem empty_output_dir:
  "py_strip (output_dir_entry w) = [] \<longrightarrow>
     output_dir_of w = path_join (expanduser_home w) ''Desktop''
   \<and> (\<not> path_exists w (path_join (expanduser_home w) ''Desktop'') \<longrightarrow>
        encode w input_file duration vertical =
          [ShowError (OutputDirectoryMissing (path_join (expanduser_home w) ''Desktop''))])
   \<and> (path_exists w (path_join (expanduser_home w) ''Desktop'') \<longrightarrow>
        ShowError (OutputDirectoryMissing p) \<notin> set (run_ffmpeg w))
   \<and> (path_exists w (path_join (expanduser_home w) ''Desktop'')
        \<and> select_mode (mode_var w) vertical = Inr plan
        \<and> rate_control_args plan (use_nvenc_var w) duration = Inr video_args \<longrightarrow>
        encode w input_file duration vertical =
          run_encoder w
            (build_command input_file plan video_args
               (output_file_of (path_join (expanduser_home w) ''Desktop'') input_file
                  (resolution_str plan)))
            (output_file_of (path_join (expanduser_home w) ''Desktop'') input_file
               (resolution_str plan)))"
proof (intro impI)
  assume e: "py_strip (output_dir_entry w) = []"
  then have o: "output_dir_of w = path_join (expanduser_home w) ''Desktop''"
    by (simp add: output_dir_of_def)
  show "output_dir_of w = path_join (expanduser_home w) ''Desktop''
   \<and> (\<not> path_exists w (path_join (expanduser_home w) ''Desktop'') \<longrightarrow>
        encode w input_file duration vertical =
          [ShowError (OutputDirectoryMissing (path_join (expanduser_home w) ''Desktop''))])
   \<and> (path_exists w (path_join (expanduser_home w) ''Desktop'') \<longrightarrow>
        ShowError (OutputDirectoryMissing p) \<notin> set (run_ffmpeg w))
   \<and> (path_exists w (path_join (expanduser_home w) ''Desktop'')
        \<and> select_mode (mode_var w) vertical = Inr plan
        \<and> rate_control_args plan (use_nvenc_var w) duration = Inr video_args \<longrightarrow>
        encode w input_file duration vertical =
          run_encoder w
            (build_command input_file plan video_args
               (output_file_of (path_join (expanduser_home w) ''Desktop'') input_file
                  (resolution_str plan)))
            (output_file_of (path_join (expanduser_home w) ''Desktop'') input_file
               (resolution_str plan)))"
    using encode_missing_dir[of w input_file duration vertical]
      run_ffmpeg_no_missing_dir[of w p]
    by (auto simp: o encode_def Let_def)
qed

text \<open>A blank entry on the example machine, and on one whose home has no desktop directory.\<close>

theorem empty_output_dir_witness:
  "py_strip (output_dir_entry blank_outdir_world) = []
   \<and> output_dir_of blank_outdir_world = ''/home/user/Desktop''
   \<and> path_exists blank_outdir_world ''/home/user/Desktop''
   \<and> encode blank_outdir_world ''/videos/clip.mp4'' (Fin 60) False =
       [Run [''ffmpeg'', ''-i'', ''/videos/clip.mp4'', ''-vf'', ''scale=640:360'',
             ''-c:v'', ''libx264'', ''-preset'', ''slow'', ''-crf'', ''23'',
             ''-c:a'', ''aac'', ''-b:a'', ''128k'', ''-ar'', ''44100'',
             ''/home/user/Desktop/clip_360p.mp4''],
        ShowInfo ''/home/user/Desktop/clip_360p.mp4'']
   \<and> py_strip (output_dir_entry no_desktop_world) = []
   \<and> \<not> path_exists no_desktop_world ''/root/Desktop''
   \<and> encode no_desktop_world ''/videos/clip.mp4'' (Fin 60) False =
       [ShowError (OutputDirectoryMissing ''/root/Desktop'')]"
proof -
  let ?f = "''/videos/clip.mp4''"
  let ?plan = "\<lparr>scaling_filter = Some ''scale=640:360'', resolution_str = ''360p'', use_bitrate = False\<rparr>"
  let ?args = "[''-c:v'', ''libx264'', ''-preset'', ''slow'', ''-crf'', ''23'']"
  have b: "py_strip (output_dir_entry blank_outdir_world) = []"
    by (simp add: blank_outdir_world_def demo_defs)
  have j: "path_join (expanduser_home blank_outdir_world) ''Desktop'' = ''/home/user/Desktop''"
    by (simp add: blank_outdir_world_def demo_defs path_join_def)
  have h: "path_exists blank_outdir_world ''/home/user/Desktop''
        \<and> select_mode (mode_var blank_outdir_world) False = Inr ?plan
        \<and> rate_control_args ?plan (use_nvenc_var blank_outdir_world) (Fin 60) = Inr ?args"
    by (simp add: blank_outdir_world_def demo_defs select_mode_def presets_landscape_def
        rate_control_args_def)
  from empty_output_dir[of blank_outdir_world ?f "Fin 60" False _ ?plan ?args] b
  have t: "output_dir_of blank_outdir_world = path_join (expanduser_home blank_outdir_world) ''Desktop''"
    and u: "path_exists blank_outdir_world (path_join (expanduser_home blank_outdir_world) ''Desktop'')
        \<and> select_mode (mode_var blank_outdir_world) False = Inr ?plan
        \<and> rate_control_args ?plan (use_nvenc_var blank_outdir_world) (Fin 60) = Inr ?args \<longrightarrow>
        encode blank_outdir_world ?f (Fin 60) False =
          run_encoder blank_outdir_world
            (build_command ?f ?plan ?args
               (output_file_of (path_join (expanduser_home blank_outdir_world) ''Desktop'') ?f
                  (resolution_str ?plan)))
            (output_file_of (path_join (expanduser_home blank_outdir_world) ''Desktop'') ?f
               (resolution_str ?plan))"
    by blast+
  from u h have "encode blank_outdir_world ?f (Fin 60) False =
          run_encoder blank_outdir_world
            (build_command ?f ?plan ?args (output_file_of ''/home/user/Desktop'' ?f ''360p''))
            (output_file_of ''/home/user/Desktop'' ?f ''360p'')"
    by (simp add: j)
  then have r: "encode blank_outdir_world ?f (Fin 60) False =
       [Run [''ffmpeg'', ''-i'', ''/videos/clip.mp4'', ''-vf'', ''scale=640:360'',
             ''-c:v'', ''libx264'', ''-preset'', ''slow'', ''-crf'', ''23'',
             ''-c:a'', ''aac'', ''-b:a'', ''128k'', ''-ar'', ''44100'',
             ''/home/user/Desktop/clip_360p.mp4''],
        ShowInfo ''/home/user/Desktop/clip_360p.mp4'']"
    by (simp add: output_file_of_def base_name_of_def basename_def splitext_def path_join_def
        build_command_def run_encoder_def blank_outdir_world_def demo_world_def
        demo_subprocess_def duration_argv_def resolution_argv_def)
  have b2: "py_strip (output_dir_entry no_desktop_world) = []"
    by (simp add: no_desktop_world_def demo_defs)
  have j2: "path_join (expanduser_home no_desktop_world) ''Desktop'' = ''/root/Desktop''"
    by (simp add: no_desktop_world_def demo_defs path_join_def)
  have n2: "\<not> path_exists no_desktop_world ''/root/Desktop''"
    by (simp add: no_desktop_world_def demo_defs)
  from empty_output_dir[of no_desktop_world ?f "Fin 60" False] b2
  have "\<not> path_exists no_desktop_world (path_join (expanduser_home no_desktop_world) ''Desktop'') \<longrightarrow>
        encode no_desktop_world ?f (Fin 60) False =
          [ShowError (OutputDirectoryMissing (path_join (expanduser_home no_desktop_world) ''Desktop''))]"
    by blast
  then have r2: "encode no_desktop_world ?f (Fin 60) False =
       [ShowError (OutputDirectoryMissing ''/root/Desktop'')]"
    using n2 by (simp add: j2)
  from b t j h r b2 n2 r2 show ?thesis by simp
qed

subsection \<open>The settings file (claim C9)\<close>

text \<open>What \<^verbatim>\<open>json.load\<close> reads back from the text that \<^verbatim>\<open>json.dump\<close> writes.\<close>

lemma hex_val_hex_digit: "k < 16 \<Longrightarrow> hex_val (hex_digit k) = Some k"
proof -
  assume "k < 16"
  then have "k = 0 \<or> k = 1 \<or> k = 2 \<or> k = 3 \<or> k = 4 \<or> k = 5 \<or> k = 6 \<or> k = 7
      \<or> k = 8 \<or> k = 9 \<or> k = 10 \<or> k = 11 \<or> k = 12 \<or> k = 13 \<or> k = 14 \<or> k = 15"
    by presburger
  then show ?thesis by (auto simp: hex_digit_def hex_val_def)
qed

lemma scan_escape_control:
  assumes "(of_char c :: nat) < 32"
  shows "scan_escape (CHR ''u'' # CHR ''0'' # CHR ''0'' # hex_digit (of_char c div 16)
           # hex_digit (of_char c mod 16) # t) = Ok (c, t)"
proof -
  let ?n = "of_char c :: nat"
  have h: "hex_val (hex_digit (?n div 16)) = Some (?n div 16)"
    "hex_val (hex_digit (?n mod 16)) = Some (?n mod 16)"
    using assms by (simp_all add: hex_val_hex_digit)
  have z: "hex_val CHR ''0'' = Some 0" by (simp add: hex_val_def)
  have v: "((0 * 16 + 0) * 16 + ?n div 16) * 16 + ?n mod 16 = ?n" by simp
  have n: "?n < 256" using assms by simp
  show ?thesis by (simp add: scan_escape_def h z v n)
qed

lemma scan_string_escape_char: "scan_string (escape_char c @ t) = scan_cons c (scan_string t)"
proof -
  consider "c = CHR 0x22" | "c = CHR 0x5C" | "c = CHR 0x0A" | "c = CHR 0x0D" | "c = CHR 0x09"
    | "c = CHR 0x08" | "c = CHR 0x0C"
    | "c \<notin> {CHR 0x22, CHR 0x5C, CHR 0x0A, CHR 0x0D, CHR 0x09, CHR 0x08, CHR 0x0C}"
      "(of_char c :: nat) < 32"
    | "c \<noteq> CHR 0x22" "c \<noteq> CHR 0x5C" "\<not> (of_char c :: nat) < 32"
    by blast
  then show ?thesis
  proof cases
    case 8
    then show ?thesis
      using scan_escape_control[of c t] by (simp add: escape_char_def)
  next
    case 9
    then have "escape_char c = [c]" by (auto simp: escape_char_def)
    with 9 show ?thesis by simp
  qed (simp_all add: escape_char_def scan_escape_def unescape_def)
qed

lemma scan_string_escaped:
  "scan_string (concat (map escape_char s) @ CHR 0x22 # rest) = Ok (s, rest)"
  by (induction s) (simp_all add: scan_string_escape_char)

lemma parse_value_dump: "parse_value (dump_value v @ rest) = Ok (v, rest)"
proof (cases v)
  case (JStr s)
  then show ?thesis
    using scan_string_escaped[of s rest] by (simp add: parse_value_def encode_basestring_def)
qed (simp_all add: parse_value_def)

lemma join_lines_members:
  "ms \<noteq> [] \<Longrightarrow> join_lines (map dump_member ms) @ ''\<newline>}'' = ''  '' @ members_text ms"
  by (induction ms rule: induct_list012) (simp_all add: dump_member_def)

lemma members_text_quote: "ms \<noteq> [] \<Longrightarrow> \<exists>t. members_text ms = CHR 0x22 # t"
  by (cases ms) (simp_all add: encode_basestring_def)

lemma dump_value_not_ws: "\<exists>c t. dump_value v = c # t \<and> \<not> json_ws c"
  by (cases v) (auto simp: encode_basestring_def json_ws_def)

lemma skip_ws_cons: "\<not> json_ws c \<Longrightarrow> skip_ws (c # t) = c # t"
  by (simp add: skip_ws_def)

lemma parse_members_step:
  "parse_members acc (encode_basestring k @ '': '' @ dump_value v @ tail) =
     (case skip_ws tail of
        [] \<Rightarrow> Fail
      | c4 # r4 \<Rightarrow>
          if c4 = CHR ''}'' then Ok (dict_set k v acc, r4)
          else if c4 = CHR '','' then parse_members (dict_set k v acc) (skip_ws r4)
          else Fail)"
proof -
  obtain c t where d: "dump_value v = c # t" "\<not> json_ws c" using dump_value_not_ws by blast
  have 1: "scan_string (concat (map escape_char k) @ CHR 0x22 # '': '' @ dump_value v @ tail)
      = Ok (k, '': '' @ dump_value v @ tail)" by (rule scan_string_escaped)
  have 2: "skip_ws ('': '' @ dump_value v @ tail) = '': '' @ dump_value v @ tail"
    by (simp add: skip_ws_def json_ws_def)
  have 3: "skip_ws ('' '' @ dump_value v @ tail) = dump_value v @ tail"
    using d by (simp add: skip_ws_def json_ws_def)
  have 4: "parse_value (dump_value v @ tail) = Ok (v, tail)" by (rule parse_value_dump)
  show ?thesis
    using 1 2 3 4
    by (subst parse_members.simps) (simp add: encode_basestring_def)
qed

lemma parse_members_text:
  "ms \<noteq> [] \<Longrightarrow>
   parse_members acc (members_text ms @ rest) = Ok (fold (\<lambda>m. dict_set (fst m) (snd m)) ms acc, rest)"
proof (induction ms arbitrary: acc)
  case Nil
  then show ?case by simp
next
  case (Cons m ms)
  show ?case
  proof (cases "ms = []")
    case True
    then show ?thesis
      using parse_members_step[of acc "fst m" "snd m" "''\<newline>}'' @ rest"]
      by (simp add: skip_ws_def json_ws_def)
  next
    case False
    then obtain t where t: "members_text ms = CHR 0x22 # t" using members_text_quote by blast
    have "skip_ws (''\<newline>  '' @ members_text ms @ rest) = members_text ms @ rest"
      by (simp add: t skip_ws_def json_ws_def)
    then show ?thesis
      using False Cons.IH[OF False, of "dict_set (fst m) (snd m) acc"]
        parse_members_step[of acc "fst m" "snd m" "'',\<newline>  '' @ members_text ms @ rest"]
      by (simp add: skip_ws_def json_ws_def)
  qed
qed

lemma fold_dict_set_distinct:
  "distinct (map fst (acc @ ms)) \<Longrightarrow> fold (\<lambda>m. dict_set (fst m) (snd m)) ms acc = acc @ ms"
proof (induction ms arbitrary: acc)
  case Nil
  then show ?case by simp
next
  case (Cons m ms)
  from Cons.prems have "fst m \<notin> fst ` set acc" by auto
  then have "dict_set (fst m) (snd m) acc = acc @ [m]" by (simp add: dict_set_def)
  with Cons.IH[of "acc @ [m]"] Cons.prems show ?case by simp
qed

lemma json_round_trip:
  assumes "distinct (map fst d)"
  shows "json_loads (json_dumps d) = Ok d"
proof (cases "d = []")
  case True
  then show ?thesis by (simp add: json_loads_def json_dumps_def skip_ws_def json_ws_def)
next
  case False
  then obtain t where t: "members_text d = CHR 0x22 # t" using members_text_quote by blast
  have dumped: "json_dumps d = CHR ''{'' # ''\<newline>  '' @ members_text d"
    using False join_lines_members[OF False] by (simp add: json_dumps_def)
  have 1: "skip_ws (''\<newline>  '' @ members_text d) = members_text d"
    by (simp add: t skip_ws_def json_ws_def)
  have 2: "parse_members [] (members_text d) = Ok (d, [])"
    using parse_members_text[OF False, of "[]" "[]"] fold_dict_set_distinct[of "[]" d] assms
    by simp
  have 3: "skip_ws (CHR ''{'' # ''\<newline>  '' @ members_text d) = CHR ''{'' # ''\<newline>  '' @ members_text d"
    by (simp add: skip_ws_def json_ws_def)
  show ?thesis
    unfolding json_loads_def dumped 3 using 1 2 t by (simp add: skip_ws_def)
qed

text \<open>
  A text that \<^verbatim>\<open>json.dump\<close> did not finish: no proper prefix of a dumped dict parses.
\<close>

lemma scan_string_escape_prefix:
  "j < length (escape_char c) \<Longrightarrow> scan_string (take j (escape_char c)) = Fail"
proof -
  assume j: "j < length (escape_char c)"
  consider "c = CHR 0x22" | "c = CHR 0x5C" | "c = CHR 0x0A" | "c = CHR 0x0D" | "c = CHR 0x09"
    | "c = CHR 0x08" | "c = CHR 0x0C"
    | "c \<notin> {CHR 0x22, CHR 0x5C, CHR 0x0A, CHR 0x0D, CHR 0x09, CHR 0x08, CHR 0x0C}"
      "(of_char c :: nat) < 32"
    | "c \<noteq> CHR 0x22" "c \<noteq> CHR 0x5C" "\<not> (of_char c :: nat) < 32"
    by blast
  then show ?thesis
  proof cases
    case 8
    then have e: "escape_char c = [CHR 0x5C, CHR ''u'', CHR ''0'', CHR ''0'',
            hex_digit (of_char c div 16), hex_digit (of_char c mod 16)]"
      by (auto simp: escape_char_def)
    with j have "j = 0 \<or> j = 1 \<or> j = 2 \<or> j = 3 \<or> j = 4 \<or> j = 5" by auto
    then show ?thesis
      by (auto simp: e scan_escape_def)
  next
    case 9
    then have "escape_char c = [c]" by (auto simp: escape_char_def)
    with j show ?thesis by simp
  next
    case 1
    with j have "j = 0 \<or> j = 1" by (auto simp: escape_char_def)
    with 1 show ?thesis by (auto simp: escape_char_def scan_escape_def)
  next
    case 2
    with j have "j = 0 \<or> j = 1" by (auto simp: escape_char_def)
    with 2 show ?thesis by (auto simp: escape_char_def scan_escape_def)
  next
    case 3
    with j have "j = 0 \<or> j = 1" by (auto simp: escape_char_def)
    with 3 show ?thesis by (auto simp: escape_char_def scan_escape_def)
  next
    case 4
    with j have "j = 0 \<or> j = 1" by (auto simp: escape_char_def)
    with 4 show ?thesis by (auto simp: escape_char_def scan_escape_def)
  next
    case 5
    with j have "j = 0 \<or> j = 1" by (auto simp: escape_char_def)
    with 5 show ?thesis by (auto simp: escape_char_def scan_escape_def)
  next
    case 6
    with j have "j = 0 \<or> j = 1" by (auto simp: escape_char_def)
    with 6 show ?thesis by (auto simp: escape_char_def scan_escape_def)
  next
    case 7
    with j have "j = 0 \<or> j = 1" by (auto simp: escape_char_def)
    with 7 show ?thesis by (auto simp: escape_char_def scan_escape_def)
  qed
qed

lemma scan_string_body_prefix:
  "scan_string (take j (concat (map escape_char s))) = Fail"
proof (induction s arbitrary: j)
  case Nil
  then show ?case by simp
next
  case (Cons c s)
  show ?case
  proof (cases "j < length (escape_char c)")
    case True
    then show ?thesis by (simp add: scan_string_escape_prefix)
  next
    case False
    then show ?thesis
      by (simp add: scan_string_escape_char Cons.IH)
  qed
qed

lemma scan_string_open_prefix:
  "j \<le> length (concat (map escape_char s)) \<Longrightarrow>
   scan_string (take j (concat (map escape_char s) @ [CHR 0x22])) = Fail"
  by (simp add: scan_string_body_prefix)

lemma parse_value_prefix:
  "j < length (dump_value v) \<Longrightarrow> parse_value (take j (dump_value v)) = Fail"
proof (cases v)
  case JNull
  assume "j < length (dump_value v)"
  with JNull have "j = 0 \<or> j = 1 \<or> j = 2 \<or> j = 3" by auto
  with JNull show ?thesis by (auto simp: parse_value_def starts_other_value_def)
next
  case (JBool b)
  assume "j < length (dump_value v)"
  with JBool have "j = 0 \<or> j = 1 \<or> j = 2 \<or> j = 3 \<or> (j = 4 \<and> \<not> b)"
    by (cases b) auto
  with JBool show ?thesis by (cases b) (auto simp: parse_value_def starts_other_value_def)
next
  case (JStr s)
  assume j: "j < length (dump_value v)"
  show ?thesis
  proof (cases j)
    case 0
    then show ?thesis by (simp add: parse_value_def)
  next
    case (Suc i)
    with j JStr have "i \<le> length (concat (map escape_char s))"
      by (simp add: encode_basestring_def)
    then have "scan_string (take i (concat (map escape_char s) @ [CHR 0x22])) = Fail"
      by (rule scan_string_open_prefix)
    with Suc JStr show ?thesis by (simp add: parse_value_def encode_basestring_def)
  qed
qed

lemma parse_members_key_prefix:
  "j < length (encode_basestring k) \<Longrightarrow> parse_members acc (take j (encode_basestring k)) = Fail"
proof (cases j)
  case 0
  then show ?thesis by (simp add: parse_members.simps)
next
  case (Suc i)
  assume "j < length (encode_basestring k)"
  with Suc have "i \<le> length (concat (map escape_char k))"
    by (simp add: encode_basestring_def)
  then have "scan_string (take i (concat (map escape_char k) @ [CHR 0x22])) = Fail"
    by (rule scan_string_open_prefix)
  with Suc show ?thesis
    by (subst parse_members.simps) (simp add: encode_basestring_def)
qed


lemma skip_ws_take: "\<not> json_ws c \<Longrightarrow> skip_ws (take i (c # t)) = take i (c # t)"
  by (cases i) (simp_all add: skip_ws_def)

lemma skip_ws_take_dump_value: "skip_ws (take i (dump_value v)) = take i (dump_value v)"
proof -
  obtain c t where "dump_value v = c # t" "\<not> json_ws c" using dump_value_not_ws by blast
  then show ?thesis by (simp add: skip_ws_take)
qed

lemma skip_ws_take_members_text: "skip_ws (take i (members_text ms)) = take i (members_text ms)"
proof (cases "ms = []")
  case True
  then show ?thesis by (simp add: skip_ws_def)
next
  case False
  then obtain t where "members_text ms = CHR 0x22 # t" using members_text_quote by blast
  then show ?thesis by (simp add: skip_ws_take json_ws_def)
qed

lemma parse_members_key_only:
  "parse_members acc (encode_basestring k @ take i '': '') = Fail"
proof -
  have s: "scan_string (concat (map escape_char k) @ CHR 0x22 # take i '': '')
      = Ok (k, take i '': '')" by (rule scan_string_escaped)
  have "i = 0 \<or> i = 1 \<or> 2 \<le> i" by auto
  then have "take i '': '' = [] \<or> take i '': '' = '':'' \<or> take i '': '' = '': ''"
    by auto
  then show ?thesis
    using s
    by (subst parse_members.simps)
       (auto simp: encode_basestring_def skip_ws_def json_ws_def parse_value_def)
qed

lemma parse_members_value_prefix:
  assumes "i < length (dump_value v)"
  shows "parse_members acc (encode_basestring k @ '': '' @ take i (dump_value v)) = Fail"
proof -
  have 1: "scan_string (concat (map escape_char k) @ CHR 0x22 # '': '' @ take i (dump_value v))
      = Ok (k, '': '' @ take i (dump_value v))" by (rule scan_string_escaped)
  have 2: "skip_ws ('': '' @ take i (dump_value v)) = '': '' @ take i (dump_value v)"
    by (simp add: skip_ws_def json_ws_def)
  have 3: "skip_ws ('' '' @ take i (dump_value v)) = take i (dump_value v)"
    using skip_ws_take_dump_value[of i v] by (simp add: skip_ws_def json_ws_def)
  have 4: "parse_value (take i (dump_value v)) = Fail"
    using assms by (rule parse_value_prefix)
  show ?thesis
    using 1 2 3 4
    by (subst parse_members.simps) (simp add: encode_basestring_def)
qed

lemma parse_members_head_prefix:
  assumes "j < length (encode_basestring k @ '': '' @ dump_value v)"
  shows "parse_members acc (take j (encode_basestring k @ '': '' @ dump_value v)) = Fail"
proof -
  let ?E = "encode_basestring k"
  consider "j < length ?E" | "length ?E \<le> j" "j - length ?E < 2"
    | "length ?E + 2 \<le> j" by linarith
  then show ?thesis
  proof cases
    case 1
    then show ?thesis by (simp add: parse_members_key_prefix)
  next
    case 2
    then have "j - length ?E = 0 \<or> j - length ?E = 1" by linarith
    with 2 have "take j (?E @ '': '' @ dump_value v) = ?E @ take (j - length ?E) '': ''"
      by auto
    then show ?thesis by (simp only: parse_members_key_only)
  next
    case 3
    define i where "i = j - length ?E - 2"
    from 3 have j: "j = length ?E + Suc (Suc i)" unfolding i_def by arith
    have "take j (?E @ '': '' @ dump_value v) = ?E @ '': '' @ take i (dump_value v)"
      unfolding j by simp
    moreover from j assms have "i < length (dump_value v)" by simp
    ultimately show ?thesis by (simp only: parse_members_value_prefix)
  qed
qed

lemma parse_members_prefix:
  "j < length (members_text ms) \<Longrightarrow> parse_members acc (take j (members_text ms)) = Fail"
proof (induction ms arbitrary: acc j)
  case Nil
  then show ?case by simp
next
  case (Cons m ms)
  let ?H = "encode_basestring (fst m) @ '': '' @ dump_value (snd m)"
  let ?tail = "if ms = [] then ''\<newline>}'' else '',\<newline>  '' @ members_text ms"
  have mt: "members_text (m # ms) = ?H @ ?tail" by simp
  show ?case
  proof (cases "j < length ?H")
    case True
    then have "take j (members_text (m # ms)) = take j ?H" by (simp only: mt take_append) simp
    with True show ?thesis by (simp only: parse_members_head_prefix)
  next
    case False
    define i where "i = j - length ?H"
    from False Cons.prems have i: "i < length ?tail"
      unfolding i_def by (simp only: mt length_append)
    from False have tk: "take j (members_text (m # ms)) = ?H @ take i ?tail"
      unfolding i_def by (simp only: mt take_append) simp
    have step: "parse_members acc (?H @ take i ?tail) =
        (case skip_ws (take i ?tail) of
           [] \<Rightarrow> Fail
         | c4 # r4 \<Rightarrow>
             if c4 = CHR ''}'' then Ok (dict_set (fst m) (snd m) acc, r4)
             else if c4 = CHR '','' then
               parse_members (dict_set (fst m) (snd m) acc) (skip_ws r4)
             else Fail)"
      using parse_members_step[of acc "fst m" "snd m" "take i ?tail"] by simp
    show ?thesis
    proof (cases "ms = []")
      case True
      with i have "i = 0 \<or> i = 1" by auto
      with True have "skip_ws (take i ?tail) = []"
        by (auto simp: skip_ws_def json_ws_def)
      with step tk show ?thesis by simp
    next
      case ne: False
      show ?thesis
      proof (cases "i \<le> 4")
        case True
        then have "i = 0 \<or> i = 1 \<or> i = 2 \<or> i = 3 \<or> i = 4" by auto
        then have "parse_members acc (?H @ take i ?tail) = Fail"
          using step ne by (auto simp: skip_ws_def json_ws_def parse_members.simps[of _ "[]"])
        with tk show ?thesis by simp
      next
        case False
        define i' where "i' = i - 4"
        from False have i': "i = Suc (Suc (Suc (Suc i')))" unfolding i'_def by arith
        with i ne have lt: "i' < length (members_text ms)" by simp
        from i' ne have "take i ?tail = '',\<newline>  '' @ take i' (members_text ms)" by simp
        then have "skip_ws (take i ?tail) = CHR '','' # ''\<newline>  '' @ take i' (members_text ms)"
          by (simp add: skip_ws_def json_ws_def)
        moreover have "skip_ws (''\<newline>  '' @ take i' (members_text ms)) = take i' (members_text ms)"
          using skip_ws_take_members_text[of i' ms] by (simp add: skip_ws_def json_ws_def)
        ultimately have "parse_members acc (?H @ take i ?tail) =
            parse_members (dict_set (fst m) (snd m) acc) (take i' (members_text ms))"
          using step by simp
        with Cons.IH[OF lt] tk show ?thesis by simp
      qed
    qed
  qed
qed

lemma json_loads_prefix:
  assumes "n < length (json_dumps d)"
  shows "json_loads (take n (json_dumps d)) = Fail"
proof (cases "d = []")
  case True
  with assms have "n = 0 \<or> n = 1" by (auto simp: json_dumps_def)
  with True show ?thesis
    by (auto simp: json_loads_def json_dumps_def skip_ws_def json_ws_def)
next
  case False
  have dumped: "json_dumps d = ''{\<newline>  '' @ members_text d"
    using False join_lines_members[OF False] by (simp add: json_dumps_def)
  show ?thesis
  proof (cases "n \<le> 4")
    case True
    then have "n = 0 \<or> n = 1 \<or> n = 2 \<or> n = 3 \<or> n = 4" by auto
    then show ?thesis
      by (auto simp: dumped json_loads_def skip_ws_def json_ws_def)
  next
    case gt: False
    define i where "i = n - 4"
    from gt have i: "n = Suc (Suc (Suc (Suc i)))" unfolding i_def by arith
    with assms have lt: "i < length (members_text d)" by (simp add: dumped)
    from gt i have pos: "0 < i" by simp
    obtain t where t: "members_text d = CHR 0x22 # t" using False members_text_quote by blast
    from pos t have q: "take i (members_text d) = CHR 0x22 # take (i - 1) t"
      by (cases i) simp_all
    have tk: "take n (json_dumps d) = ''{\<newline>  '' @ take i (members_text d)"
      by (simp add: dumped i)
    have 1: "skip_ws (''{\<newline>  '' @ take i (members_text d)) = ''{\<newline>  '' @ take i (members_text d)"
      by (simp add: skip_ws_def json_ws_def)
    have 2: "skip_ws (''\<newline>  '' @ take i (members_text d)) = CHR 0x22 # take (i - 1) t"
      by (simp add: q skip_ws_def json_ws_def)
    have 3: "parse_members [] (CHR 0x22 # take (i - 1) t) = Fail"
      using parse_members_prefix[OF lt, of "[]"] q by simp
    show ?thesis
      unfolding tk json_loads_def 1 using 2 3 by simp
  qed
qed

text \<open>
  So a write that fails after the open leaves a file from which the load gives the empty
  dict, whatever the file held before, and a write that cannot open the file leaves the
  file as it was.
\<close>

lemma load_after_interrupted_write:
  "write_outcome fs = Interrupted n \<Longrightarrow> n < length (json_dumps s) \<Longrightarrow>
   load_config (save_config s fs) = Dict []"
  by (simp add: load_config_def save_config_def json_loads_prefix)

lemma save_config_cannot_open: "write_outcome fs = CannotOpen \<Longrightarrow> save_config s fs = fs"
  by (simp add: save_config_def)

text \<open>
  The text that line 27 writes for a Windows path: the backslashes are doubled, the members
  are on two lines.
\<close>

lemma windows_settings_text:
  "json_dumps windows_settings =
     ''{\<newline>  '' @ [CHR 0x22] @ ''last_output_dir'' @ [CHR 0x22] @ '': '' @ [CHR 0x22]
     @ ''C:'' @ [CHR 0x5C, CHR 0x5C] @ ''Users'' @ [CHR 0x5C, CHR 0x5C] @ ''me'' @ [CHR 0x22]
     @ '',\<newline>  '' @ [CHR 0x22] @ ''use_nvenc'' @ [CHR 0x22] @ '': false\<newline>}''"
  by (simp add: json_dumps_def windows_settings_def dump_member_def encode_basestring_def
      escape_char_def)

text \<open>
  On a disk that fills up, the file holds the first twelve characters of the new text and
  the load gives the empty dict. It is neither what was saved nor what the file held
  before.
\<close>

lemma interrupted_write:
  "config_file (save_config nvenc_on full_disk_dir) = Some (''{\<newline>  '' @ [CHR 0x22] @ ''use_nve'')
   \<and> load_config (save_config nvenc_on full_disk_dir) = Dict []
   \<and> load_config full_disk_dir = Dict windows_settings"
proof -
  have d: "json_dumps nvenc_on = ''{\<newline>  '' @ [CHR 0x22] @ ''use_nvenc'' @ [CHR 0x22] @ '': true\<newline>}''"
    by (simp add: json_dumps_def nvenc_on_def dump_member_def encode_basestring_def
        escape_char_def)
  have f: "config_file (save_config nvenc_on full_disk_dir)
      = Some (''{\<newline>  '' @ [CHR 0x22] @ ''use_nve'')"
    by (simp add: save_config_def full_disk_dir_def d)
  have s: "scan_string ''use_nve'' = Fail" by simp
  have p: "json_loads (''{\<newline>  '' @ [CHR 0x22] @ ''use_nve'') = Fail"
    using s by (simp add: json_loads_def skip_ws_def json_ws_def parse_members.simps)
  have r: "can_read (save_config nvenc_on full_disk_dir)"
    by (simp add: save_config_def full_disk_dir_def)
  have l: "load_config (save_config nvenc_on full_disk_dir) = Dict []"
    using f r p by (simp add: load_config_def)
  have "distinct (map fst windows_settings)" by (simp add: windows_settings_def)
  then have "json_loads (json_dumps windows_settings) = Ok windows_settings"
    by (rule json_round_trip)
  then have o: "load_config full_disk_dir = Dict windows_settings"
    by (simp add: load_config_def full_disk_dir_def)
  from f l o show ?thesis by simp
qed

text \<open>
  Claim C9, as the code has it: when the write of \<^verbatim>\<open>save_config\<close> reaches the file in full
  and the file can be read, loading after saving a settings value gives that value back,
  the empty default included. The keys of a dict are distinct.
\<close>

theorem settings_round_trip:
  "distinct (map fst s) \<and> write_outcome fs = Written \<and> can_read fs
   \<longrightarrow> load_config (save_config s fs) = Dict s"
  by (simp add: load_config_def save_config_def json_round_trip)

text \<open>
  A writable directory without a settings file yet: a Windows path and a flag, and the
  empty default.
\<close>

theorem settings_round_trip_witness:
  "distinct (map fst windows_settings) \<and> distinct (map fst ([] :: config))
   \<and> write_outcome fresh_dir = Written \<and> can_read fresh_dir
   \<and> load_config (save_config windows_settings fresh_dir) = Dict windows_settings
   \<and> load_config (save_config [] fresh_dir) = Dict []"
proof -
  have h: "distinct (map fst windows_settings) \<and> write_outcome fresh_dir = Written
      \<and> can_read fresh_dir"
    by (simp add: windows_settings_def fresh_dir_def)
  have e: "distinct (map fst ([] :: config)) \<and> write_outcome fresh_dir = Written
      \<and> can_read fresh_dir"
    by (simp add: fresh_dir_def)
  from settings_round_trip[of windows_settings fresh_dir] h
  have 1: "load_config (save_config windows_settings fresh_dir) = Dict windows_settings"
    by blast
  from settings_round_trip[of "[]" fresh_dir] e
  have 2: "load_config (save_config [] fresh_dir) = Dict []"
    by blast
  from h e 1 2 show ?thesis by blast
qed

text \<open>
  In a directory where the settings file cannot be created, what was saved is not what is
  loaded: \<^verbatim>\<open>save_config\<close> prints the exception and the load finds no file.
\<close>

theorem settings_round_trip_counterexample:
  "load_config (save_config nvenc_on read_only_dir) = Dict []
   \<and> load_config (save_config nvenc_on read_only_dir) \<noteq> Dict nvenc_on"
  by (simp add: load_config_def save_config_def read_only_dir_def nvenc_on_def)

end
